theory Spec2Isabelle
  imports Complex_Main
begin

section \<open>Tensor values\<close>

text \<open>
  The entries of a float tensor are modelled as real numbers extended with the three
  non-finite values of IEEE arithmetic. The operations \<open>fadd\<close>, \<open>fmul\<close>, \<open>fdiv\<close>,
  \<open>fexp\<close>, \<open>flog\<close> and \<open>fsqrt\<close> follow the IEEE rules for the special values
  (division by zero, \<open>log\<close> of zero or of a negative number, \<open>inf - inf\<close>, \<open>0 * inf\<close>,
  \<open>nan\<close> through every operation) and give the exact real result otherwise. The
  float32 operations further down store that result in the range of float32. Rounding of the
  mantissa and the sign of zero are not modelled.
\<close>

datatype tfloat = Finite real | PosInf | NegInf | NaN

fun is_finite :: "tfloat \<Rightarrow> bool" where
  "is_finite (Finite r) = True"
| "is_finite v = False"

fun fadd :: "tfloat \<Rightarrow> tfloat \<Rightarrow> tfloat" where
  "fadd (Finite a) (Finite b) = Finite (a + b)"
| "fadd NaN v = NaN"
| "fadd v NaN = NaN"
| "fadd PosInf NegInf = NaN"
| "fadd NegInf PosInf = NaN"
| "fadd PosInf v = PosInf"
| "fadd v PosInf = PosInf"
| "fadd NegInf v = NegInf"
| "fadd v NegInf = NegInf"

fun fneg :: "tfloat \<Rightarrow> tfloat" where
  "fneg (Finite a) = Finite (- a)"
| "fneg PosInf = NegInf"
| "fneg NegInf = PosInf"
| "fneg NaN = NaN"

text \<open>A signed infinity times, or divided by, a finite number of the given sign.\<close>

definition inf_signed :: "bool \<Rightarrow> real \<Rightarrow> tfloat" where
  "inf_signed pos a = (if a = 0 then NaN else if (0 < a) = pos then PosInf else NegInf)"

fun fmul :: "tfloat \<Rightarrow> tfloat \<Rightarrow> tfloat" where
  "fmul (Finite a) (Finite b) = Finite (a * b)"
| "fmul NaN v = NaN"
| "fmul v NaN = NaN"
| "fmul (Finite a) PosInf = inf_signed True a"
| "fmul (Finite a) NegInf = inf_signed False a"
| "fmul PosInf (Finite b) = inf_signed True b"
| "fmul NegInf (Finite b) = inf_signed False b"
| "fmul PosInf PosInf = PosInf"
| "fmul NegInf NegInf = PosInf"
| "fmul PosInf NegInf = NegInf"
| "fmul NegInf PosInf = NegInf"

text \<open>
  Division: a finite number divided by zero is \<open>nan\<close> for \<open>0 / 0\<close> and an infinity otherwise
  (of the sign of the numerator, the zero taken as positive); it is never finite.
\<close>

fun fdiv :: "tfloat \<Rightarrow> tfloat \<Rightarrow> tfloat" where
  "fdiv (Finite a) (Finite b) =
     (if b = 0 then (if a = 0 then NaN else if 0 < a then PosInf else NegInf)
      else Finite (a / b))"
| "fdiv NaN v = NaN"
| "fdiv v NaN = NaN"
| "fdiv (Finite a) v = Finite 0"
| "fdiv PosInf (Finite b) = (if 0 \<le> b then PosInf else NegInf)"
| "fdiv NegInf (Finite b) = (if 0 \<le> b then NegInf else PosInf)"
| "fdiv v w = NaN"

fun fexp :: "tfloat \<Rightarrow> tfloat" where
  "fexp (Finite a) = Finite (exp a)"
| "fexp PosInf = PosInf"
| "fexp NegInf = Finite 0"
| "fexp NaN = NaN"

fun flog :: "tfloat \<Rightarrow> tfloat" where
  "flog (Finite a) = (if 0 < a then Finite (ln a) else if a = 0 then NegInf else NaN)"
| "flog PosInf = PosInf"
| "flog v = NaN"

fun fsqrt :: "tfloat \<Rightarrow> tfloat" where
  "fsqrt (Finite a) = (if 0 \<le> a then Finite (sqrt a) else NaN)"
| "fsqrt PosInf = PosInf"
| "fsqrt v = NaN"

fun clamp_min :: "tfloat \<Rightarrow> real \<Rightarrow> tfloat" where
  "clamp_min (Finite a) lo = Finite (max a lo)"
| "clamp_min PosInf lo = PosInf"
| "clamp_min NegInf lo = Finite lo"
| "clamp_min NaN lo = NaN"

text \<open>
  Float32 results. \<open>round32\<close> stores a value as float32 does under round to nearest: a
  magnitude of \<open>2^128 - 2^103\<close> or more overflows to an infinity, a magnitude of
  \<open>2^-150\<close> or less underflows to zero, and a value in between is kept as it is. The
  operations \<open>add32\<close>, \<open>sub32\<close>, \<open>mul32\<close>, \<open>div32\<close>, \<open>exp32\<close>, \<open>log32\<close> and
  \<open>sqrt32\<close> are the operations above with their result stored this way.
\<close>

definition float32_overflow :: real where
  "float32_overflow = 2 ^ 128 - 2 ^ 103"

definition float32_underflow :: real where
  "float32_underflow = 1 / 2 ^ 150"

fun round32 :: "tfloat \<Rightarrow> tfloat" where
  "round32 (Finite r) =
     (if float32_overflow \<le> \<bar>r\<bar> then (if 0 < r then PosInf else NegInf)
      else if \<bar>r\<bar> \<le> float32_underflow then Finite 0
      else Finite r)"
| "round32 v = v"

definition add32 :: "tfloat \<Rightarrow> tfloat \<Rightarrow> tfloat" where
  "add32 a b = round32 (fadd a b)"

definition sub32 :: "tfloat \<Rightarrow> tfloat \<Rightarrow> tfloat" where
  "sub32 a b = round32 (fadd a (fneg b))"

definition mul32 :: "tfloat \<Rightarrow> tfloat \<Rightarrow> tfloat" where
  "mul32 a b = round32 (fmul a b)"

definition div32 :: "tfloat \<Rightarrow> tfloat \<Rightarrow> tfloat" where
  "div32 a b = round32 (fdiv a b)"

definition exp32 :: "tfloat \<Rightarrow> tfloat" where
  "exp32 a = round32 (fexp a)"

definition log32 :: "tfloat \<Rightarrow> tfloat" where
  "log32 a = round32 (flog a)"

definition sqrt32 :: "tfloat \<Rightarrow> tfloat" where
  "sqrt32 a = round32 (fsqrt a)"

text \<open>
  The larger of two values, \<open>nan\<close> if either is \<open>nan\<close>, and the sum of a list of values,
  accumulated from the left starting at zero (torch does not fix the order of a reduction).
\<close>

fun max32 :: "tfloat \<Rightarrow> tfloat \<Rightarrow> tfloat" where
  "max32 NaN v = NaN"
| "max32 v NaN = NaN"
| "max32 PosInf v = PosInf"
| "max32 v PosInf = PosInf"
| "max32 NegInf v = v"
| "max32 v NegInf = v"
| "max32 (Finite a) (Finite b) = Finite (max a b)"

definition sum32 :: "tfloat list \<Rightarrow> tfloat" where
  "sum32 v = foldl add32 (Finite 0) v"

type_synonym vector = "tfloat list"

type_synonym matrix = "tfloat list list"

section \<open>The momentum update\<close>

text \<open>
  A parameter of a network is its flattened \<open>data\<close> and the flag \<open>requires_grad\<close>; a network
  is the list \<open>parameters()\<close> yields. \<open>m * t.data\<close> multiplies every entry by the scalar,
  \<open>+\<close> adds two tensors of one shape entry by entry.
\<close>

record param =
  data :: vector
  requires_grad :: bool

definition scalar_mul :: "tfloat \<Rightarrow> vector \<Rightarrow> vector" where
  "scalar_mul m v = map (fmul m) v"

definition tensor_add :: "vector \<Rightarrow> vector \<Rightarrow> vector" where
  "tensor_add u v = map2 fadd u v"

text \<open>
  \<open>for s, t in zip(self.student.parameters(), self.teacher.parameters())\<close>: \<open>zip\<close> stops
  at the shorter sequence, so teacher parameters beyond it stay as they are.
\<close>

fun momentum_synchronize_loop :: "tfloat \<Rightarrow> param list \<Rightarrow> param list \<Rightarrow> param list" where
  "momentum_synchronize_loop m (s # ss) (t # ts) =
     t\<lparr>data := tensor_add (scalar_mul m (data t))
                  (scalar_mul (fadd (Finite 1) (fneg m)) (data s)),
       requires_grad := False\<rparr>
     # momentum_synchronize_loop m ss ts"
| "momentum_synchronize_loop m ss ts = ts"

section \<open>The object \<open>SupervisedContrast\<close> and its memory queue\<close>

text \<open>
  The class \<open>SupervisedContrast\<close> of \<open>SupervisedContrastiveTraining.py\<close> keeps a dictionary
  \<open>self.queue\<close> from class index to a Python list of tensors. A tensor is modelled by the
  list of its rows along dimension 0; the rows themselves stay abstract (\<open>'e\<close>).
  The exceptions the methods can raise are values of \<open>error\<close>:
  \<open>KeyError\<close> for \<open>self.queue[i]\<close> on a missing key, \<open>IndexError\<close> for \<open>pop(0)\<close> on an
  empty list and for a boolean mask whose length differs from the indexed tensor's,
  \<open>RuntimeError\<close> for \<open>torch.cat\<close> of an empty list of tensors.
\<close>

datatype error = KeyError | IndexError | RuntimeError

type_synonym 'e tensor = "'e list"

type_synonym 'e queue = "nat \<rightharpoonup> 'e tensor list"

text \<open>
  The fields of the object that the methods below read and write. The two networks are
  their parameter lists; the network function itself is a parameter \<open>teacher_forward\<close> of
  the methods that call it, applied to the teacher's current parameters.
\<close>

record 'e SupervisedContrast =
  num_classes :: nat
  student :: "param list"
  teacher :: "param list"
  queue :: "'e queue"

text \<open>\<open>momentum_synchronize(m)\<close> runs the loop above over the two networks of the object.\<close>

definition momentum_synchronize :: "'e SupervisedContrast \<Rightarrow> tfloat \<Rightarrow> 'e SupervisedContrast" where
  "momentum_synchronize self m =
     self\<lparr>teacher := momentum_synchronize_loop m (student self) (teacher self)\<rparr>"

text \<open>\<open>x[mask]\<close> with \<open>mask = y == i\<close>: the rows of \<open>x\<close> whose label is \<open>i\<close>.\<close>

definition label_eq :: "int list \<Rightarrow> nat \<Rightarrow> bool list" where
  "label_eq y i = map (\<lambda>l. l = int i) y"

definition index_mask :: "'x tensor \<Rightarrow> bool list \<Rightarrow> error + 'x tensor" where
  "index_mask x msk =
     (if length msk \<noteq> length x then Inl IndexError
      else Inr (map fst (filter snd (zip x msk))))"

text \<open>
  \<open>initialize_queue\<close>, first part: \<open>self.queue = {}\<close> and the loop
  \<open>for i in range(self.num_classes): self.queue[i] = []\<close>.
\<close>

fun empty_slots :: "nat list \<Rightarrow> 'e queue \<Rightarrow> 'e queue" where
  "empty_slots [] q = q"
| "empty_slots (i # cs) q = empty_slots cs (q(i \<mapsto> []))"

text \<open>
  \<open>enqueue\<close>: the inner loop over the classes for one batch \<open>(x, y)\<close>, and the outer loop
  over \<open>enumerate(self.loader)\<close> that breaks at \<open>step >= size\<close>; \<open>n\<close> is
  \<open>self.num_classes\<close>. The batches the loader yields on this iteration are the list
  \<open>loader\<close>.
\<close>

fun enqueue_classes ::
  "('x tensor \<Rightarrow> 'e tensor) \<Rightarrow> 'x tensor \<Rightarrow> int list \<Rightarrow> nat list \<Rightarrow> 'e queue \<Rightarrow> error + 'e queue"
where
  "enqueue_classes teacher_forward x y [] q = Inr q"
| "enqueue_classes teacher_forward x y (i # cs) q =
     (case q i of
        None \<Rightarrow> Inl KeyError
      | Some slot \<Rightarrow>
          (case index_mask x (label_eq y i) of
             Inl e \<Rightarrow> Inl e
           | Inr xm \<Rightarrow>
               enqueue_classes teacher_forward x y cs (q(i \<mapsto> slot @ [teacher_forward xm]))))"

fun enqueue_loop ::
  "('x tensor \<Rightarrow> 'e tensor) \<Rightarrow> nat \<Rightarrow> int \<Rightarrow> int \<Rightarrow> ('x tensor \<times> int list) list \<Rightarrow> 'e queue
     \<Rightarrow> error + 'e queue"
where
  "enqueue_loop teacher_forward n size' step [] q = Inr q"
| "enqueue_loop teacher_forward n size' step ((x, y) # loader) q =
     (if step \<ge> size' then Inr q
      else
        (case enqueue_classes teacher_forward x y [0..<n] q of
           Inl e \<Rightarrow> Inl e
         | Inr q' \<Rightarrow> enqueue_loop teacher_forward n size' (step + 1) loader q'))"

definition enqueue ::
  "(param list \<Rightarrow> 'x tensor \<Rightarrow> 'e tensor) \<Rightarrow> ('x tensor \<times> int list) list
     \<Rightarrow> 'e SupervisedContrast \<Rightarrow> int \<Rightarrow> error + 'e SupervisedContrast"
where
  "enqueue teacher_forward loader self size' =
     (case enqueue_loop (teacher_forward (teacher self)) (num_classes self) size' 0 loader
             (queue self) of
        Inl e \<Rightarrow> Inl e
      | Inr q \<Rightarrow> Inr (self\<lparr>queue := q\<rparr>))"

definition initialize_queue ::
  "(param list \<Rightarrow> 'x tensor \<Rightarrow> 'e tensor) \<Rightarrow> ('x tensor \<times> int list) list
     \<Rightarrow> 'e SupervisedContrast \<Rightarrow> int \<Rightarrow> error + 'e SupervisedContrast"
where
  "initialize_queue teacher_forward loader self queue_size =
     enqueue teacher_forward loader
       (self\<lparr>queue := empty_slots [0..<num_classes self] Map.empty\<rparr>) queue_size"

text \<open>
  \<open>dequeue\<close>: \<open>for i in range(self.num_classes): for _ in range(size): self.queue[i].pop(0)\<close>.
  \<open>range(size)\<close> runs \<open>nat size\<close> times (not at all for a negative \<open>size\<close>).
\<close>

fun dequeue_slot :: "nat \<Rightarrow> nat \<Rightarrow> 'e queue \<Rightarrow> error + 'e queue" where
  "dequeue_slot i 0 q = Inr q"
| "dequeue_slot i (Suc n) q =
     (case q i of
        None \<Rightarrow> Inl KeyError
      | Some [] \<Rightarrow> Inl IndexError
      | Some (e # slot) \<Rightarrow> dequeue_slot i n (q(i \<mapsto> slot)))"

fun dequeue_classes :: "nat \<Rightarrow> nat list \<Rightarrow> 'e queue \<Rightarrow> error + 'e queue" where
  "dequeue_classes n [] q = Inr q"
| "dequeue_classes n (i # cs) q =
     (case dequeue_slot i n q of
        Inl e \<Rightarrow> Inl e
      | Inr q' \<Rightarrow> dequeue_classes n cs q')"

definition dequeue :: "'e SupervisedContrast \<Rightarrow> int \<Rightarrow> error + 'e SupervisedContrast" where
  "dequeue self size' =
     (case dequeue_classes (nat size') [0..<num_classes self] (queue self) of
        Inl e \<Rightarrow> Inl e
      | Inr q \<Rightarrow> Inr (self\<lparr>queue := q\<rparr>))"

text \<open>
  \<open>get_queue\<close>: the loop builds the Python lists \<open>x\<close> and \<open>y\<close>; \<open>torch.cat\<close> raises on an
  empty list of tensors and concatenates along dimension 0 otherwise.
\<close>

definition torch_cat :: "'e tensor list \<Rightarrow> error + 'e tensor" where
  "torch_cat ts = (if ts = [] then Inl RuntimeError else Inr (concat ts))"

fun get_queue_loop ::
  "nat list \<Rightarrow> 'e queue \<Rightarrow> 'e tensor list \<Rightarrow> nat list \<Rightarrow> error + ('e tensor list \<times> nat list)"
where
  "get_queue_loop [] q x y = Inr (x, y)"
| "get_queue_loop (i # cs) q x y =
     (case q i of
        None \<Rightarrow> Inl KeyError
      | Some slot \<Rightarrow>
          (case torch_cat slot of
             Inl e \<Rightarrow> Inl e
           | Inr now_x \<Rightarrow>
               get_queue_loop cs q (x @ [now_x]) (y @ replicate (length now_x) i)))"

definition get_queue :: "'e SupervisedContrast \<Rightarrow> error + ('e tensor \<times> nat list)" where
  "get_queue self =
     (case get_queue_loop [0..<num_classes self] (queue self) [] [] of
        Inl e \<Rightarrow> Inl e
      | Inr (x, y) \<Rightarrow>
          (case torch_cat x of
             Inl e \<Rightarrow> Inl e
           | Inr xs \<Rightarrow> Inr (xs, y)))"

section \<open>The loss\<close>

text \<open>
  \<open>chr_loss(x, y, queue_x, queue_y, t)\<close> with \<open>x\<close> of shape \<open>N1, D\<close>, \<open>y\<close> of shape \<open>N1\<close>,
  \<open>queue_x\<close> of shape \<open>N2, D\<close> and \<open>queue_y\<close> of shape \<open>N2\<close>, as its docstring says. A matrix
  is the list of its rows. The operations of torch are modelled on matrices of these
  shapes; broadcasting of other shapes is not modelled. Every arithmetic result is a float32
  (\<open>mul32\<close>, \<open>add32\<close> and so on).

  \<open>F.normalize(x, dim=1)\<close> divides each row by \<open>max(norm, eps)\<close> with the default
  \<open>eps = 1e-12\<close>, the norm being the square root of the sum of the squares.
  \<open>F.softmax(gram, dim=1)\<close> subtracts the maximum of the row from each entry, takes the
  exponentials and divides them by their sum.
\<close>

definition normalize_eps :: real where
  "normalize_eps = 1 / 10 ^ 12"

definition l2_norm :: "vector \<Rightarrow> tfloat" where
  "l2_norm v = sqrt32 (sum32 (map (\<lambda>a. mul32 a a) v))"

definition F_normalize :: "matrix \<Rightarrow> matrix" where
  "F_normalize x = map (\<lambda>row. map (\<lambda>a. div32 a (clamp_min (l2_norm row) normalize_eps)) row) x"

definition dot :: "vector \<Rightarrow> vector \<Rightarrow> tfloat" where
  "dot u v = sum32 (map2 mul32 u v)"

definition matmul :: "matrix \<Rightarrow> matrix \<Rightarrow> matrix" where
  "matmul a b = map (\<lambda>row. map (\<lambda>col. dot row col) (transpose b)) a"

definition to_float :: "int list \<Rightarrow> vector" where
  "to_float y = map (\<lambda>l. Finite (of_int l)) y"

definition unsqueeze1 :: "vector \<Rightarrow> matrix" where
  "unsqueeze1 v = map (\<lambda>a. [a]) v"

definition unsqueeze0 :: "vector \<Rightarrow> matrix" where
  "unsqueeze0 v = [v]"

definition row_max :: "vector \<Rightarrow> tfloat" where
  "row_max row = foldl max32 NegInf row"

definition softmax_row :: "vector \<Rightarrow> vector" where
  "softmax_row row =
     map (\<lambda>a. div32 (exp32 (sub32 a (row_max row)))
                   (sum32 (map (\<lambda>b. exp32 (sub32 b (row_max row))) row))) row"

definition F_softmax :: "matrix \<Rightarrow> matrix" where
  "F_softmax g = map softmax_row g"

definition torch_sum :: "matrix \<Rightarrow> tfloat" where
  "torch_sum a = sum32 (concat a)"

definition gram_matrix :: "matrix \<Rightarrow> matrix \<Rightarrow> tfloat \<Rightarrow> matrix" where
  "gram_matrix x queue_x t =
     map (map (\<lambda>a. div32 a t)) (matmul (F_normalize x) (transpose (F_normalize queue_x)))"

definition label_mask :: "int list \<Rightarrow> int list \<Rightarrow> matrix" where
  "label_mask y queue_y = matmul (unsqueeze1 (to_float y)) (unsqueeze0 (to_float queue_y))"

definition log_probs :: "matrix \<Rightarrow> matrix \<Rightarrow> tfloat \<Rightarrow> matrix" where
  "log_probs x queue_x t = map (map log32) (F_softmax (gram_matrix x queue_x t))"

definition chr_loss :: "matrix \<Rightarrow> int list \<Rightarrow> matrix \<Rightarrow> int list \<Rightarrow> tfloat \<Rightarrow> tfloat" where
  "chr_loss x y queue_x queue_y t =
     div32 (torch_sum (map2 (map2 mul32) (map (map fneg) (label_mask y queue_y))
                         (log_probs x queue_x t)))
           (torch_sum (label_mask y queue_y))"

text \<open>The shapes of the docstring, with feature dimension \<open>d\<close>.\<close>

definition chr_shapes :: "matrix \<Rightarrow> int list \<Rightarrow> matrix \<Rightarrow> int list \<Rightarrow> nat \<Rightarrow> bool" where
  "chr_shapes x y queue_x queue_y d =
     (0 < d \<and> length y = length x \<and> length queue_y = length queue_x
      \<and> list_all (\<lambda>row. length row = d) x \<and> list_all (\<lambda>row. length row = d) queue_x)"








definition labelMask :: "int list \<Rightarrow> int list \<Rightarrow> nat \<Rightarrow> nat \<Rightarrow> tfloat" where
  "labelMask y queue_y i j = mul32 (Finite (of_int (y ! i))) (Finite (of_int (queue_y ! j)))"


section \<open>Vocabulary of the statements\<close>

text \<open>
  \<open>class_rows x y i\<close> are the samples of the batch \<open>(x, y)\<close> whose label is \<open>i\<close>;
  \<open>has_slots n q\<close> says that every class key below \<open>n\<close> is present in the queue;
  \<open>entries tf batches i\<close> are the tensors that \<open>enqueue\<close> computes for class \<open>i\<close> from
  the given batches, in order.
\<close>

definition class_rows :: "'x tensor \<Rightarrow> int list \<Rightarrow> nat \<Rightarrow> 'x tensor" where
  "class_rows x y i = map fst (filter (\<lambda>p. snd p = int i) (zip x y))"

definition has_slots :: "nat \<Rightarrow> 'e queue \<Rightarrow> bool" where
  "has_slots nc q = (\<forall>i<nc. q i \<noteq> None)"

definition entries ::
  "('x tensor \<Rightarrow> 'e tensor) \<Rightarrow> ('x tensor \<times> int list) list \<Rightarrow> nat \<Rightarrow> 'e tensor list" where
  "entries tf batches i = map (\<lambda>(x, y). tf (class_rows x y i)) batches"

text \<open>A batch is well formed when it has as many labels as samples.\<close>

definition batches_ok :: "('x tensor \<times> int list) list \<Rightarrow> bool" where
  "batches_ok batches = list_all (\<lambda>(x, y). length x = length y) batches"

text \<open>
  \<open>equal_slots n q len\<close>: every class slot below \<open>n\<close> is present and holds \<open>len\<close>
  entries; \<open>nonempty_slots n q\<close>: every class slot below \<open>n\<close> is present and holds at
  least one entry.
\<close>

definition equal_slots :: "nat \<Rightarrow> 'e queue \<Rightarrow> nat \<Rightarrow> bool" where
  "equal_slots n q len = (\<forall>i<n. \<exists>slot. q i = Some slot \<and> length slot = len)"

definition nonempty_slots :: "nat \<Rightarrow> 'e queue \<Rightarrow> bool" where
  "nonempty_slots n q = (\<forall>i<n. \<exists>slot. q i = Some slot \<and> slot \<noteq> [])"

text \<open>
  \<open>and_then\<close> runs a second method call when the first returned normally.
  \<open>oldest\<close> and \<open>second_oldest\<close> are the first and the second element of a slot, when
  it has one. \<open>class_count batches c\<close> is the number of samples labelled \<open>c\<close> in the
  batches; \<open>class_embeddings q c\<close> are the embedding rows queued for class \<open>c\<close>, over all
  entries of its slot.
\<close>

definition and_then :: "error + 'a \<Rightarrow> ('a \<Rightarrow> error + 'b) \<Rightarrow> error + 'b" where
  "and_then r f = (case r of Inl e \<Rightarrow> Inl e | Inr s \<Rightarrow> f s)"

definition oldest :: "'a list \<Rightarrow> 'a option" where
  "oldest slot = (case slot of [] \<Rightarrow> None | a # rest \<Rightarrow> Some a)"

definition second_oldest :: "'a list \<Rightarrow> 'a option" where
  "second_oldest slot = (case slot of a # b # rest \<Rightarrow> Some b | _ \<Rightarrow> None)"

definition class_count :: "('x tensor \<times> int list) list \<Rightarrow> nat \<Rightarrow> nat" where
  "class_count batches c = sum_list (map (\<lambda>(x, y). count_list y (int c)) batches)"

definition class_embeddings :: "'e queue \<Rightarrow> nat \<Rightarrow> 'e tensor" where
  "class_embeddings q c = (case q c of None \<Rightarrow> [] | Some slot \<Rightarrow> concat slot)"

text \<open>
  Two parameter sequences are \<open>aligned\<close> when they have as many parameters and the
  parameters at each position have the same size; \<open>finite_params\<close> says that no entry of
  the parameters is \<open>inf\<close> or \<open>nan\<close>; \<open>blend m s t\<close> is \<open>m * t + (1 - m) * s\<close>
  for single entries, as the update computes it.
\<close>

definition aligned :: "param list \<Rightarrow> param list \<Rightarrow> bool" where
  "aligned ss ts = list_all2 (\<lambda>s t. length (data s) = length (data t)) ss ts"

definition finite_params :: "param list \<Rightarrow> bool" where
  "finite_params ps = list_all (\<lambda>p. list_all is_finite (data p)) ps"

definition blend :: "tfloat \<Rightarrow> tfloat \<Rightarrow> tfloat \<Rightarrow> tfloat" where
  "blend m s t = fadd (fmul m t) (fmul (fadd (Finite 1) (fneg m)) s)"

text \<open>
  \<open>tab n m f\<close> is the \<open>n\<close> by \<open>m\<close> matrix with entry \<open>f i j\<close> in row \<open>i\<close> and column
  \<open>j\<close>. \<open>the_real\<close> reads a finite entry; \<open>finite_matrix\<close> says that every entry of a
  matrix is finite; \<open>norm2\<close> is the Euclidean norm of a list of reals and \<open>row_norm\<close>
  that of a row of finite entries.
\<close>

definition tab :: "nat \<Rightarrow> nat \<Rightarrow> (nat \<Rightarrow> nat \<Rightarrow> 'a) \<Rightarrow> 'a list list" where
  "tab n m f = map (\<lambda>i. map (f i) [0..<m]) [0..<n]"

fun the_real :: "tfloat \<Rightarrow> real" where
  "the_real (Finite r) = r"
| "the_real v = 0"


definition norm2 :: "real list \<Rightarrow> real" where
  "norm2 rs = sqrt (sum_list (map (\<lambda>r. r * r) rs))"


text \<open>
  \<open>in_range32 r\<close>: the real \<open>r\<close> is zero or lies strictly between the underflow and the
  overflow threshold of float32 in magnitude, so that \<open>round32\<close> keeps it.
  \<open>squares_in_range v\<close>: for a row of finite entries, the square of every entry and the sum
  of the squares are in that range, so that the norm of the row is computed without
  overflow or underflow. \<open>int64_labels\<close>: the labels fit the integer type of a label
  tensor.
\<close>

definition in_range32 :: "real \<Rightarrow> bool" where
  "in_range32 r = (r = 0 \<or> (float32_underflow < \<bar>r\<bar> \<and> \<bar>r\<bar> < float32_overflow))"

definition squares_in_range :: "vector \<Rightarrow> bool" where
  "squares_in_range v =
     (list_all (\<lambda>a. in_range32 (the_real a * the_real a)) v
      \<and> sum_list (map (\<lambda>a. the_real a * the_real a) v) < float32_overflow)"


section \<open>The queue loops\<close>

lemma index_mask_label_eq:
  "length x = length y \<Longrightarrow> index_mask x (label_eq y i) = Inr (class_rows x y i)"
  unfolding index_mask_def label_eq_def class_rows_def
proof (induction x arbitrary: y)
  case Nil then show ?case by simp
next
  case (Cons a x)
  then obtain b y' where "y = b # y'" by (cases y) auto
  with Cons show ?case by auto
qed

lemma index_mask_Inr_length: "index_mask x (label_eq y i) = Inr xm \<Longrightarrow> length x = length y"
  by (auto simp: index_mask_def label_eq_def split: if_splits)

lemma empty_slots_apply: "empty_slots cs q i = (if i \<in> set cs then Some [] else q i)"
  by (induction cs arbitrary: q) auto

lemma enqueue_classes_Inr:
  "enqueue_classes tf x y cs q = Inr q' \<Longrightarrow> distinct cs \<Longrightarrow>
     (\<forall>i\<in>set cs. \<exists>s. q i = Some s \<and> q' i = Some (s @ [tf (class_rows x y i)]))
     \<and> (\<forall>i. i \<notin> set cs \<longrightarrow> q' i = q i) \<and> (cs \<noteq> [] \<longrightarrow> length x = length y)"
proof (induction cs arbitrary: q)
  case Nil then show ?case by simp
next
  case (Cons c cs)
  from Cons.prems obtain s where s: "q c = Some s" by (auto split: option.splits)
  from Cons.prems s obtain xm where xm: "index_mask x (label_eq y c) = Inr xm"
    by (auto split: sum.splits)
  have len: "length x = length y" using xm by (rule index_mask_Inr_length)
  have xm': "xm = class_rows x y c" using xm index_mask_label_eq[OF len, of c] by simp
  from Cons.prems s xm have rec: "enqueue_classes tf x y cs (q(c \<mapsto> s @ [tf xm])) = Inr q'"
    by simp
  from Cons.prems have d: "distinct cs" and nin: "c \<notin> set cs" by auto
  note IH = Cons.IH[OF rec d]
  have a: "\<forall>i\<in>set (c # cs). \<exists>s. q i = Some s \<and> q' i = Some (s @ [tf (class_rows x y i)])"
  proof
    fix i assume i: "i \<in> set (c # cs)"
    show "\<exists>s. q i = Some s \<and> q' i = Some (s @ [tf (class_rows x y i)])"
    proof (cases "i = c")
      case True
      with IH nin have "q' c = Some (s @ [tf xm])" by simp
      with True s xm' show ?thesis by simp
    next
      case False
      with i have "i \<in> set cs" by simp
      with IH False show ?thesis by fastforce
    qed
  qed
  have b: "\<forall>i. i \<notin> set (c # cs) \<longrightarrow> q' i = q i" using IH by simp
  show ?case using a b len by simp
qed

lemma enqueue_classes_ok:
  "distinct cs \<Longrightarrow> \<forall>i\<in>set cs. q i \<noteq> None \<Longrightarrow> length x = length y \<Longrightarrow>
     \<exists>q'. enqueue_classes tf x y cs q = Inr q'"
proof (induction cs arbitrary: q)
  case Nil then show ?case by simp
next
  case (Cons c cs)
  then obtain s where s: "q c = Some s" by auto
  have "\<forall>i\<in>set cs. (q(c \<mapsto> s @ [tf (class_rows x y c)])) i \<noteq> None" using Cons.prems by auto
  moreover have "distinct cs" using Cons.prems(1) by simp
  ultimately have "\<exists>q'. enqueue_classes tf x y cs (q(c \<mapsto> s @ [tf (class_rows x y c)])) = Inr q'"
    using Cons.IH Cons.prems(3) by blast
  then show ?case using s index_mask_label_eq[OF Cons.prems(3), of c] by simp
qed

lemma nat_steps_left: "\<not> step \<ge> sz \<Longrightarrow> nat (sz - step) = Suc (nat (sz - (step + 1)))"
  for sz step :: int
  by arith

lemma enqueue_loop_Inr:
  "enqueue_loop tf nc sz step loader q = Inr q' \<Longrightarrow> has_slots nc q \<Longrightarrow>
     q' = (\<lambda>i. if i < nc then Some (the (q i) @ entries tf (take (nat (sz - step)) loader) i) else q i)"
proof (induction loader arbitrary: step q)
  case Nil
  then show ?case by (auto simp: entries_def has_slots_def)
next
  case (Cons b loader)
  obtain x y where b: "b = (x, y)" by (cases b)
  show ?case
  proof (cases "step \<ge> sz")
    case True
    with Cons.prems b show ?thesis by (auto simp: entries_def has_slots_def)
  next
    case False
    with Cons.prems b obtain q1 where q1: "enqueue_classes tf x y [0..<nc] q = Inr q1"
      and rec: "enqueue_loop tf nc sz (step + 1) loader q1 = Inr q'"
      by (auto split: sum.splits)
    from enqueue_classes_Inr[OF q1] have
      q1a: "\<And>i. i < nc \<Longrightarrow> \<exists>s. q i = Some s \<and> q1 i = Some (s @ [tf (class_rows x y i)])"
      and q1b: "\<And>i. \<not> i < nc \<Longrightarrow> q1 i = q i" by auto
    have hs: "has_slots nc q1" using q1a by (fastforce simp: has_slots_def)
    from Cons.IH[OF rec hs] have
      q': "q' = (\<lambda>i. if i < nc then Some (the (q1 i) @ entries tf (take (nat (sz - (step + 1))) loader) i) else q1 i)" .
    from False have tk: "take (nat (sz - step)) (b # loader) = b # take (nat (sz - (step + 1))) loader"
      by (simp add: nat_steps_left)
    show ?thesis
    proof
      fix i
      show "q' i = (if i < nc then Some (the (q i) @ entries tf (take (nat (sz - step)) (b # loader)) i) else q i)"
      proof (cases "i < nc")
        case True
        from q1a[OF True] obtain s where "q i = Some s" "q1 i = Some (s @ [tf (class_rows x y i)])" by blast
        then show ?thesis using True q' tk b by (simp add: entries_def)
      next
        case False2: False
        then show ?thesis using q' q1b by simp
      qed
    qed
  qed
qed

lemma enqueue_loop_ok:
  "has_slots nc q \<Longrightarrow> \<forall>(x, y)\<in>set (take (nat (sz - step)) loader). length x = length y \<Longrightarrow>
     \<exists>q'. enqueue_loop tf nc sz step loader q = Inr q'"
proof (induction loader arbitrary: step q)
  case Nil then show ?case by simp
next
  case (Cons b loader)
  obtain x y where b: "b = (x, y)" by (cases b)
  show ?case
  proof (cases "step \<ge> sz")
    case True with b show ?thesis by simp
  next
    case False
    from False have tk: "take (nat (sz - step)) (b # loader) = b # take (nat (sz - (step + 1))) loader"
      by (simp add: nat_steps_left)
    with Cons.prems(2) b have len: "length x = length y"
      and rest: "\<forall>(x, y)\<in>set (take (nat (sz - (step + 1))) loader). length x = length y" by auto
    have "\<forall>i\<in>set [0..<nc]. q i \<noteq> None" using Cons.prems(1) by (simp add: has_slots_def)
    from enqueue_classes_ok[OF _ this len, of tf] obtain q1 where
      q1: "enqueue_classes tf x y [0..<nc] q = Inr q1" by auto
    from enqueue_classes_Inr[OF q1] have "has_slots nc q1" by (fastforce simp: has_slots_def)
    from Cons.IH[OF this rest] obtain q' where "enqueue_loop tf nc sz (step + 1) loader q1 = Inr q'" by blast
    with q1 False b show ?thesis by simp
  qed
qed

lemma dequeue_slot_eq:
  "dequeue_slot i n q =
     (case q i of
        None \<Rightarrow> if n = 0 then Inr q else Inl KeyError
      | Some s \<Rightarrow> if length s < n then Inl IndexError else Inr (q(i \<mapsto> drop n s)))"
proof (induction n arbitrary: q)
  case 0
  then show ?case by (auto split: option.splits simp: map_upd_triv)
next
  case (Suc n)
  show ?case
  proof (cases "q i")
    case None then show ?thesis by simp
  next
    case (Some s)
    then show ?thesis by (cases s) (simp_all add: Suc.IH)
  qed
qed

lemma dequeue_classes_eq:
  "distinct cs \<Longrightarrow> \<forall>i\<in>set cs. q i \<noteq> None \<Longrightarrow>
   dequeue_classes n cs q =
     (if \<exists>i\<in>set cs. length (the (q i)) < n then Inl IndexError
      else Inr (\<lambda>i. if i \<in> set cs then Some (drop n (the (q i))) else q i))"
proof (induction cs arbitrary: q)
  case Nil then show ?case by simp
next
  case (Cons c cs)
  then obtain s where s: "q c = Some s" by auto
  show ?case
  proof (cases "length s < n")
    case True
    with s show ?thesis by (simp add: dequeue_slot_eq)
  next
    case False
    let ?q1 = "q(c \<mapsto> drop n s)"
    have d: "distinct cs" and nin: "c \<notin> set cs" using Cons.prems(1) by auto
    have k: "\<forall>i\<in>set cs. ?q1 i \<noteq> None" using Cons.prems(2) by auto
    have same: "\<And>i. i \<in> set cs \<Longrightarrow> ?q1 i = q i" using nin by auto
    have "dequeue_classes n (c # cs) q = dequeue_classes n cs ?q1"
      using s False by (simp add: dequeue_slot_eq)
    also have "\<dots> = (if \<exists>i\<in>set cs. length (the (?q1 i)) < n then Inl IndexError
      else Inr (\<lambda>i. if i \<in> set cs then Some (drop n (the (?q1 i))) else ?q1 i))"
      by (rule Cons.IH[OF d k])
    also have "\<dots> = (if \<exists>i\<in>set (c # cs). length (the (q i)) < n then Inl IndexError
      else Inr (\<lambda>i. if i \<in> set (c # cs) then Some (drop n (the (q i))) else q i))"
      using s False nin by (auto intro!: ext)
    finally show ?thesis .
  qed
qed

lemma get_queue_loop_ok:
  "\<forall>i\<in>set cs. \<exists>s. q i = Some s \<and> s \<noteq> [] \<Longrightarrow>
   get_queue_loop cs q x y =
     Inr (x @ map (\<lambda>i. concat (the (q i))) cs,
          y @ concat (map (\<lambda>i. replicate (length (concat (the (q i)))) i) cs))"
proof (induction cs arbitrary: x y)
  case Nil then show ?case by simp
next
  case (Cons c cs)
  then obtain s where s: "q c = Some s" "s \<noteq> []" by auto
  have "\<forall>i\<in>set cs. \<exists>s. q i = Some s \<and> s \<noteq> []" using Cons.prems by simp
  from Cons.IH[OF this] s show ?case by (simp add: torch_cat_def)
qed

lemma enqueue_Inr:
  assumes "enqueue tf loader self sz = Inr self'" and "has_slots (num_classes self) (queue self)"
  shows "self' = self\<lparr>queue := (\<lambda>i. if i < num_classes self
            then Some (the (queue self i) @ entries (tf (teacher self)) (take (nat sz) loader) i)
            else queue self i)\<rparr>"
proof -
  from assms(1) obtain q' where
    q': "enqueue_loop (tf (teacher self)) (num_classes self) sz 0 loader (queue self) = Inr q'"
    and s': "self' = self\<lparr>queue := q'\<rparr>"
    by (auto simp: enqueue_def split: sum.splits)
  from enqueue_loop_Inr[OF q' assms(2)] s' show ?thesis by (simp cong: if_cong)
qed

lemma enqueue_ok:
  assumes "has_slots (num_classes self) (queue self)"
    and "batches_ok (take (nat sz) loader)"
  shows "\<exists>self'. enqueue tf loader self sz = Inr self'"
proof -
  from assms(2) have "\<forall>(x, y)\<in>set (take (nat sz) loader). length x = length y"
    by (simp add: batches_ok_def list_all_iff)
  with enqueue_loop_ok[OF assms(1), of sz 0 loader "tf (teacher self)"]
  obtain q' where "enqueue_loop (tf (teacher self)) (num_classes self) sz 0 loader (queue self) = Inr q'"
    by auto
  then show ?thesis by (simp add: enqueue_def)
qed

lemma dequeue_eq:
  assumes "has_slots (num_classes self) (queue self)"
  shows "dequeue self sz =
     (if \<exists>i<num_classes self. int (length (the (queue self i))) < sz then Inl IndexError
      else Inr (self\<lparr>queue := (\<lambda>i. if i < num_classes self
                  then Some (drop (nat sz) (the (queue self i))) else queue self i)\<rparr>))"
proof -
  have k: "\<forall>i\<in>set [0..<num_classes self]. queue self i \<noteq> None"
    using assms by (simp add: has_slots_def)
  have c: "(\<exists>i\<in>set [0..<num_classes self]. length (the (queue self i)) < nat sz)
             = (\<exists>i<num_classes self. int (length (the (queue self i))) < sz)"
  proof -
    have "\<And>n. (n < nat sz) = (int n < sz)" by arith
    then show ?thesis by auto
  qed
  show ?thesis
    unfolding dequeue_def dequeue_classes_eq[OF distinct_upt k] c
    by (simp cong: if_cong)
qed

lemma has_slots_empty_slots: "has_slots n (empty_slots [0..<n] q)"
  by (simp add: has_slots_def empty_slots_apply)

lemma equal_slots_empty_slots: "equal_slots n (empty_slots [0..<n] q) 0"
  by (simp add: equal_slots_def empty_slots_apply)

lemma equal_slots_has_slots: "equal_slots n q len \<Longrightarrow> has_slots n q"
  by (auto simp: equal_slots_def has_slots_def)

lemma nonempty_slots_has_slots: "nonempty_slots n q \<Longrightarrow> has_slots n q"
  by (auto simp: nonempty_slots_def has_slots_def)

lemma length_entries: "length (entries f (take n loader) i) = min n (length loader)"
  by (simp add: entries_def min.commute)

lemma enqueue_queue:
  assumes "enqueue tf loader self sz = Inr self'" and "has_slots (num_classes self) (queue self)"
  shows "queue self' = (\<lambda>i. if i < num_classes self
            then Some (the (queue self i) @ entries (tf (teacher self)) (take (nat sz) loader) i)
            else queue self i)"
    and "num_classes self' = num_classes self" and "teacher self' = teacher self"
    and "self' = self\<lparr>queue := queue self'\<rparr>"
proof -
  note eq = enqueue_Inr[OF assms]
  show q: "queue self' = (\<lambda>i. if i < num_classes self
            then Some (the (queue self i) @ entries (tf (teacher self)) (take (nat sz) loader) i)
            else queue self i)" using arg_cong[OF eq, of queue] by simp
  show "num_classes self' = num_classes self" using arg_cong[OF eq, of num_classes] by simp
  show "teacher self' = teacher self" using arg_cong[OF eq, of teacher] by simp
  show "self' = self\<lparr>queue := queue self'\<rparr>" using eq q by simp
qed

lemma enqueue_equal_slots:
  assumes "equal_slots (num_classes self) (queue self) len" and "enqueue tf loader self sz = Inr self'"
  shows "equal_slots (num_classes self') (queue self') (len + min (nat sz) (length loader))"
proof -
  note hs = equal_slots_has_slots[OF assms(1)]
  note q = enqueue_queue[OF assms(2) hs]
  show ?thesis unfolding equal_slots_def q(2)
  proof (intro allI impI)
    fix i assume i: "i < num_classes self"
    with assms(1) obtain slot where "queue self i = Some slot" "length slot = len"
      by (auto simp: equal_slots_def)
    then show "\<exists>slot. queue self' i = Some slot \<and> length slot = len + min (nat sz) (length loader)"
      by (simp add: q(1) i length_entries)
  qed
qed

lemma initialize_queue_equal_slots:
  assumes "initialize_queue tf loader self qs = Inr self'"
  shows "equal_slots (num_classes self') (queue self') (min (nat qs) (length loader))"
proof -
  let ?s0 = "self\<lparr>queue := empty_slots [0..<num_classes self] Map.empty\<rparr>"
  have e: "equal_slots (num_classes ?s0) (queue ?s0) 0" by (simp add: equal_slots_empty_slots)
  have "enqueue tf loader ?s0 qs = Inr self'" using assms by (simp add: initialize_queue_def)
  from enqueue_equal_slots[OF e this] show ?thesis by simp
qed

lemma dequeue_Inr:
  assumes "has_slots (num_classes self) (queue self)" and "dequeue self sz = Inr self'"
  shows "queue self' = (\<lambda>i. if i < num_classes self
                  then Some (drop (nat sz) (the (queue self i))) else queue self i)"
    and "num_classes self' = num_classes self"
    and "self' = self\<lparr>queue := queue self'\<rparr>"
    and "\<forall>i<num_classes self. sz \<le> int (length (the (queue self i)))"
proof -
  let ?F = "\<lambda>i. if i < num_classes self
                  then Some (drop (nat sz) (the (queue self i))) else queue self i"
  from assms(2) have c: "\<not> (\<exists>i<num_classes self. int (length (the (queue self i))) < sz)"
    and eq: "self' = self\<lparr>queue := ?F\<rparr>"
    unfolding dequeue_eq[OF assms(1)] by (auto split: if_splits)
  show q: "queue self' = ?F" using arg_cong[OF eq, of queue] by simp
  show "num_classes self' = num_classes self" using arg_cong[OF eq, of num_classes] by simp
  show "self' = self\<lparr>queue := queue self'\<rparr>" using eq q by simp
  show "\<forall>i<num_classes self. sz \<le> int (length (the (queue self i)))" using c by force
qed

lemma dequeue_equal_slots:
  assumes "equal_slots (num_classes self) (queue self) len" and "dequeue self sz = Inr self'"
  shows "equal_slots (num_classes self') (queue self') (len - nat sz)"
proof -
  note hs = equal_slots_has_slots[OF assms(1)]
  note q = dequeue_Inr[OF hs assms(2)]
  show ?thesis unfolding equal_slots_def q(2)
  proof (intro allI impI)
    fix i assume i: "i < num_classes self"
    with assms(1) obtain slot where "queue self i = Some slot" "length slot = len"
      by (auto simp: equal_slots_def)
    then show "\<exists>slot. queue self' i = Some slot \<and> length slot = len - nat sz"
      by (simp add: q(1) i)
  qed
qed

lemma initialize_queue_ok:
  assumes "batches_ok (take (nat qs) loader)"
  shows "\<exists>self'. initialize_queue tf loader self qs = Inr self'"
  unfolding initialize_queue_def
  by (rule enqueue_ok) (simp_all add: has_slots_empty_slots assms)

lemma dequeue_ok:
  assumes "equal_slots (num_classes self) (queue self) len" and "sz \<le> int len"
  shows "\<exists>self'. dequeue self sz = Inr self'"
proof -
  have "\<not> (\<exists>i<num_classes self. int (length (the (queue self i))) < sz)"
    using assms by (fastforce simp: equal_slots_def)
  then show ?thesis
    unfolding dequeue_eq[OF equal_slots_has_slots[OF assms(1)]] by simp
qed

lemma oldest_second_oldest:
  "2 \<le> length old \<Longrightarrow> oldest (tl old @ [e]) = second_oldest old"
  by (cases old; cases "tl old") (auto simp: oldest_def second_oldest_def)

lemma length_class_rows:
  "length x = length y \<Longrightarrow> length (class_rows x y c) = count_list y (int c)"
  unfolding class_rows_def
proof (induction x arbitrary: y)
  case Nil then show ?case by simp
next
  case (Cons a x)
  then obtain b y' where "y = b # y'" by (cases y) auto
  with Cons show ?case by auto
qed

lemma length_concat_entries:
  assumes "\<forall>xs. length (f xs) = length xs" and "batches_ok batches"
  shows "length (concat (entries f batches c)) = class_count batches c"
  using assms(2)
proof (induction batches)
  case Nil then show ?case by (simp add: entries_def class_count_def)
next
  case (Cons b batches)
  obtain x y where b: "b = (x, y)" by (cases b)
  with Cons.prems have len: "length x = length y" and rest: "batches_ok batches"
    by (simp_all add: batches_ok_def)
  from Cons.IH[OF rest] have "length (concat (entries f batches c)) = class_count batches c" .
  then show ?case using b assms(1) length_class_rows[OF len, of c]
    by (simp add: entries_def class_count_def)
qed

lemma get_queue_ok:
  assumes "nonempty_slots (num_classes self) (queue self)" and "0 < num_classes self"
  shows "get_queue self =
     Inr (concat (map (class_embeddings (queue self)) [0..<num_classes self]),
          concat (map (\<lambda>c. replicate (length (class_embeddings (queue self) c)) c)
                    [0..<num_classes self]))"
proof -
  let ?n = "num_classes self" and ?q = "queue self"
  have ne: "\<forall>i\<in>set [0..<?n]. \<exists>s. ?q i = Some s \<and> s \<noteq> []"
    using assms(1) by (simp add: nonempty_slots_def)
  have ce: "\<And>c. c \<in> set [0..<?n] \<Longrightarrow> concat (the (?q c)) = class_embeddings ?q c"
    using assms(1) by (fastforce simp: nonempty_slots_def class_embeddings_def)
  have m1: "map (\<lambda>i. concat (the (?q i))) [0..<?n] = map (class_embeddings ?q) [0..<?n]"
    by (rule map_cong[OF refl]) (rule ce)
  have m2: "map (\<lambda>i. replicate (length (concat (the (?q i)))) i) [0..<?n]
             = map (\<lambda>c. replicate (length (class_embeddings ?q c)) c) [0..<?n]"
    by (rule map_cong[OF refl]) (simp add: ce)
  have nonempty: "map (class_embeddings ?q) [0..<?n] \<noteq> []" using assms(2) by simp
  show ?thesis
    unfolding get_queue_def get_queue_loop_ok[OF ne] append_Nil m1 m2
    using nonempty by (simp add: torch_cat_def)
qed

lemma sorted_class_labels: "sorted (concat (map (\<lambda>c. replicate (f c) c) [0..<n]))"
  by (induction n) (auto simp: sorted_append)

lemma count_class_labels:
  "count_list (concat (map (\<lambda>c. replicate (f c) c) [0..<n])) c = (if c < n then f c else 0)"
proof (induction n)
  case 0 then show ?case by simp
next
  case (Suc n)
  have r: "\<And>k a. count_list (replicate k a) c = (if a = c then k else 0)"
    subgoal for k a by (induction k) auto
    done
  show ?case using Suc by (auto simp: r)
qed

lemma length_class_labels:
  "length (concat (map (\<lambda>c. replicate (f c) c) [0..<n])) = (\<Sum>c<n. f c)"
  by (induction n) auto

lemma length_concat_classes:
  "length (concat (map g [0..<n])) = (\<Sum>c<n. length (g c))"
  by (induction n) auto

section \<open>The momentum update, entry by entry\<close>

lemma momentum_synchronize_loop_data:
  "aligned ss ts \<Longrightarrow>
   map data (momentum_synchronize_loop m ss ts)
     = map2 (\<lambda>s t. map2 (blend m) (data s) (data t)) ss ts"
  unfolding aligned_def
proof (induction ss ts rule: list_all2_induct)
  case Nil then show ?case by simp
next
  case (Cons s ss t ts)
  have "tensor_add (scalar_mul m (data t)) (scalar_mul (fadd (Finite 1) (fneg m)) (data s))
        = map2 (blend m) (data s) (data t)"
    using Cons.hyps(1)
    by (simp add: tensor_add_def scalar_mul_def blend_def zip_map1 zip_map2 list_eq_iff_nth_eq)
  with Cons.IH show ?case by simp
qed

lemma momentum_synchronize_loop_requires_grad:
  "length ss = length ts \<Longrightarrow>
   list_all (\<lambda>t. \<not> requires_grad t) (momentum_synchronize_loop m ss ts)"
  by (induction ss ts rule: list_induct2) simp_all

lemma blend_zero: "is_finite t \<Longrightarrow> blend (Finite 0) s t = s"
  by (cases t; cases s) (simp_all add: blend_def inf_signed_def)

lemma blend_one: "is_finite s \<Longrightarrow> blend (Finite 1) s t = t"
  by (cases t; cases s) (simp_all add: blend_def inf_signed_def)

lemma map2_blend_zero:
  "length u = length v \<Longrightarrow> list_all is_finite v \<Longrightarrow> map2 (blend (Finite 0)) u v = u"
  by (induction u v rule: list_induct2) (simp_all add: blend_zero)

lemma map2_blend_one:
  "length u = length v \<Longrightarrow> list_all is_finite u \<Longrightarrow> map2 (blend (Finite 1)) u v = v"
  by (induction u v rule: list_induct2) (simp_all add: blend_one)

lemma sync_zero:
  "aligned ss ts \<Longrightarrow> finite_params ts \<Longrightarrow>
   map2 (\<lambda>s t. map2 (blend (Finite 0)) (data s) (data t)) ss ts = map data ss"
  unfolding aligned_def finite_params_def
  by (induction ss ts rule: list_all2_induct) (simp_all add: map2_blend_zero)

lemma sync_one:
  "aligned ss ts \<Longrightarrow> finite_params ss \<Longrightarrow>
   map2 (\<lambda>s t. map2 (blend (Finite 1)) (data s) (data t)) ss ts = map data ts"
  unfolding aligned_def finite_params_def
  by (induction ss ts rule: list_all2_induct) (simp_all add: map2_blend_one)

section \<open>The loss, entry by entry\<close>

text \<open>
  The tensor operations of \<open>chr_loss\<close> on matrices of the documented shapes, read entry
  by entry: each intermediate matrix is the table of the corresponding entry of the
  specification.
\<close>

lemma float32_thresholds: "0 < float32_underflow" "float32_underflow < 1" "1 < float32_overflow"
  by (simp_all add: float32_underflow_def float32_overflow_def)

lemma round32_zero [simp]: "round32 (Finite 0) = Finite 0"
  using float32_thresholds by simp

lemma round32_in_range: "in_range32 r \<Longrightarrow> round32 (Finite r) = Finite r"
  using float32_thresholds by (auto simp: in_range32_def)









lemma length_tab [simp]: "length (tab n m f) = n"
  by (simp add: tab_def)



lemma tab_cong: "(\<And>i j. i < n \<Longrightarrow> j < m \<Longrightarrow> f i j = g i j) \<Longrightarrow> tab n m f = tab n m g"
  by (simp add: tab_def)






lemma transpose_single: "transpose [v] = map (\<lambda>a. [a]) v"
  by (induction v) simp_all







lemma label_mask_tab:
  "label_mask y queue_y = tab (length y) (length queue_y)
     (\<lambda>i j. add32 (Finite 0) (labelMask y queue_y i j))"
proof -
  have "label_mask y queue_y
      = map (\<lambda>a. map (\<lambda>b. dot [Finite (of_int a)] [Finite (of_int b)]) queue_y) y"
    by (simp add: label_mask_def matmul_def unsqueeze1_def unsqueeze0_def to_float_def
        transpose_single comp_def)
  also have "\<dots> = map (\<lambda>a. map (\<lambda>b. add32 (Finite 0) (mul32 (Finite (of_int a)) (Finite (of_int b)))) queue_y) y"
    by (simp add: dot_def sum32_def)
  also have "\<dots> = tab (length y) (length queue_y) (\<lambda>i j. add32 (Finite 0) (labelMask y queue_y i j))"
    unfolding tab_def labelMask_def by (auto intro!: nth_equalityI)
  finally show ?thesis .
qed

lemma fadd_zero_left [simp]: "fadd (Finite 0) v = v"
  by (cases v) simp_all

lemma round32_idem [simp]: "round32 (round32 v) = round32 v"
  using float32_thresholds by (cases v) auto

lemma is_finite_round32_imp: "\<not> is_finite v \<Longrightarrow> \<not> is_finite (round32 v)"
  by (cases v) simp_all

declare round32.simps [simp del]

lemma round32_infinite [simp]:
  "round32 PosInf = PosInf" "round32 NegInf = NegInf" "round32 NaN = NaN"
  by (simp_all add: round32.simps)

lemma add32_zero_round32 [simp]: "add32 (Finite 0) (round32 v) = round32 v"
  by (simp add: add32_def)

lemma add32_zero_mul32 [simp]: "add32 (Finite 0) (mul32 a b) = mul32 a b"
  by (simp add: mul32_def)

lemma label_mask_tab': "label_mask y queue_y = tab (length y) (length queue_y) (labelMask y queue_y)"
  unfolding label_mask_tab by (rule tab_cong) (simp add: labelMask_def)




lemma labelMask_class0:
  assumes "y ! i = 0 \<or> queue_y ! j = 0"
  shows "labelMask y queue_y i j = Finite 0"
  using assms by (auto simp: labelMask_def mul32_def)


lemma div32_by_zero: "\<not> is_finite (div32 a (Finite 0))"
  unfolding div32_def by (rule is_finite_round32_imp) (cases a, simp_all)

lemma foldl_add32_zeros:
  "list_all (\<lambda>v. v = Finite 0) vs \<Longrightarrow> foldl add32 (Finite 0) vs = Finite 0"
  by (induction vs) (simp_all add: add32_def)

lemma torch_sum_label_mask_zero:
  assumes "list_all (\<lambda>l. l = 0) y \<or> list_all (\<lambda>l. l = 0) queue_y"
  shows "torch_sum (label_mask y queue_y) = Finite 0"
proof -
  have z: "\<And>i j. i < length y \<Longrightarrow> j < length queue_y \<Longrightarrow> labelMask y queue_y i j = Finite 0"
    using assms by (auto simp: list_all_length intro!: labelMask_class0)
  have "list_all (\<lambda>v. v = Finite 0) (concat (tab (length y) (length queue_y) (labelMask y queue_y)))"
    using z by (auto simp: list_all_iff tab_def)
  then show ?thesis
    by (simp add: label_mask_tab' torch_sum_def sum32_def foldl_add32_zeros)
qed

section \<open>Normalisation within the range of float32\<close>


lemma normalize_eps_pos: "0 < normalize_eps"
  by (simp add: normalize_eps_def)

lemma in_range32_add:
  assumes "0 \<le> a" "in_range32 a" "0 \<le> r" "in_range32 r" "a + r < float32_overflow"
  shows "in_range32 (a + r)"
  using assms by (auto simp: in_range32_def)

lemma foldl_add32_reals:
  assumes "list_all (\<lambda>r. 0 \<le> r \<and> in_range32 r) rs" and "0 \<le> a" and "in_range32 a"
    and "a + sum_list rs < float32_overflow"
  shows "foldl add32 (Finite a) (map Finite rs) = Finite (a + sum_list rs)"
  using assms
proof (induction rs arbitrary: a)
  case Nil then show ?case by simp
next
  case (Cons r rs)
  then have r: "0 \<le> r" "in_range32 r" and rest: "list_all (\<lambda>r. 0 \<le> r \<and> in_range32 r) rs"
    by simp_all
  have nn: "0 \<le> sum_list rs" using rest by (induction rs) simp_all
  have lt: "a + r < float32_overflow" using Cons.prems(4) nn by simp
  have ir: "in_range32 (a + r)" by (rule in_range32_add[OF Cons.prems(2,3) r lt])
  have step: "add32 (Finite a) (Finite r) = Finite (a + r)"
    by (simp add: add32_def round32_in_range[OF ir])
  have "foldl add32 (Finite (a + r)) (map Finite rs) = Finite ((a + r) + sum_list rs)"
    by (rule Cons.IH[OF rest _ ir]) (use Cons.prems(2,4) r in simp_all)
  then show ?case by (simp add: step add.assoc)
qed

lemma sum32_reals:
  assumes "list_all (\<lambda>r. 0 \<le> r \<and> in_range32 r) rs" and "sum_list rs < float32_overflow"
  shows "sum32 (map Finite rs) = Finite (sum_list rs)"
  using foldl_add32_reals[OF assms(1), of 0] assms(2)
  by (simp add: sum32_def in_range32_def)

lemma in_range32_sqrt:
  assumes "0 \<le> s" and "in_range32 s"
  shows "in_range32 (sqrt s)"
proof (cases "s = 0")
  case True then show ?thesis by (simp add: in_range32_def)
next
  case False
  with assms have lo: "float32_underflow < s" and hi: "s < float32_overflow" and pos: "0 < s"
    by (auto simp: in_range32_def)
  show ?thesis
  proof (cases "s \<le> 1")
    case True
    have "s \<le> sqrt s"
    proof -
      have "s * s \<le> s * 1" using True pos by (intro mult_left_mono) simp_all
      then have "s * s \<le> s" by simp
      then have "sqrt (s * s) \<le> sqrt s" by (rule real_sqrt_le_mono)
      moreover have "sqrt (s * s) = s" using pos by simp
      ultimately show ?thesis by simp
    qed
    moreover have le1: "sqrt s \<le> 1" using True by simp
    ultimately have "float32_underflow < sqrt s" using lo by linarith
    moreover have "sqrt s < float32_overflow" using le1 float32_thresholds by linarith
    moreover have "0 \<le> sqrt s" using pos by simp
    ultimately show ?thesis unfolding in_range32_def by (simp only: abs_of_nonneg) simp
  next
    case False
    then have one: "1 \<le> s" by simp
    have "sqrt s \<le> s"
    proof -
      have "s * 1 \<le> s * s" using one pos by (intro mult_left_mono) simp_all
      then have "s \<le> s * s" by simp
      then have "sqrt s \<le> sqrt (s * s)" by (rule real_sqrt_le_mono)
      moreover have "sqrt (s * s) = s" using pos by simp
      ultimately show ?thesis by simp
    qed
    moreover have ge1: "1 \<le> sqrt s" using one by simp
    ultimately have "sqrt s < float32_overflow" using hi by linarith
    moreover have "float32_underflow < sqrt s" using ge1 float32_thresholds by linarith
    moreover have "0 \<le> sqrt s" using pos by simp
    ultimately show ?thesis unfolding in_range32_def by (simp only: abs_of_nonneg) simp
  qed
qed

lemma squares_in_range_reals:
  "squares_in_range (map Finite rs)
     \<longleftrightarrow> list_all (\<lambda>r. in_range32 (r * r)) rs \<and> sum_list (map (\<lambda>r. r * r) rs) < float32_overflow"
  by (simp add: squares_in_range_def list_all_iff comp_def)

lemma sum_list_squares_nonneg: "0 \<le> sum_list (map (\<lambda>r. r * r) rs)" for rs :: "real list"
  by (induction rs) simp_all

lemma l2_norm_reals:
  assumes "squares_in_range (map Finite rs)"
  shows "l2_norm (map Finite rs) = Finite (norm2 rs)"
proof -
  let ?sq = "map (\<lambda>r. r * r) rs"
  from assms have a: "list_all (\<lambda>r. in_range32 (r * r)) rs" and b: "sum_list ?sq < float32_overflow"
    by (simp_all add: squares_in_range_reals)
  have m: "map (\<lambda>a. mul32 a a) (map Finite rs) = map Finite ?sq"
    using a by (simp add: list_all_iff mul32_def round32_in_range)
  have c: "list_all (\<lambda>r. 0 \<le> r \<and> in_range32 r) ?sq"
    using a by (simp add: list_all_iff)
  have s: "sum32 (map Finite ?sq) = Finite (sum_list ?sq)" by (rule sum32_reals[OF c b])
  have nn: "0 \<le> sum_list ?sq" by (rule sum_list_squares_nonneg)
  have ir: "in_range32 (sum_list ?sq)"
  proof (cases "sum_list ?sq = 0")
    case True then show ?thesis by (simp add: in_range32_def)
  next
    case False
    have "\<exists>r\<in>set rs. r * r \<noteq> 0"
    proof (rule ccontr)
      assume "\<not> (\<exists>r\<in>set rs. r * r \<noteq> 0)"
      then have "\<forall>r\<in>set rs. r * r = 0" by blast
      then have "sum_list ?sq = 0" by (induction rs) simp_all
      with False show False by simp
    qed
    then obtain r where r: "r \<in> set rs" "r * r \<noteq> 0" by blast
    with a have "float32_underflow < r * r" by (auto simp: list_all_iff in_range32_def)
    moreover have "r * r \<le> sum_list ?sq"
      using r(1) by (intro member_le_sum_list) auto
    ultimately show ?thesis using b nn by (simp add: in_range32_def)
  qed
  have "sqrt32 (Finite (sum_list ?sq)) = Finite (sqrt (sum_list ?sq))"
    using nn by (simp add: sqrt32_def round32_in_range[OF in_range32_sqrt[OF nn ir]])
  then show ?thesis unfolding l2_norm_def m s norm2_def .
qed

lemma normalize_row_reals:
  assumes "squares_in_range (map Finite rs)"
  shows "map (\<lambda>a. div32 a (clamp_min (l2_norm (map Finite rs)) normalize_eps)) (map Finite rs)
     = map (\<lambda>r. round32 (Finite (r / max (norm2 rs) normalize_eps))) rs"
proof -
  have "0 < max (norm2 rs) normalize_eps" by (simp add: less_max_iff_disj normalize_eps_pos)
  then have "max (norm2 rs) normalize_eps \<noteq> 0" by simp
  then show ?thesis by (simp add: l2_norm_reals[OF assms] div32_def)
qed





section \<open>The loss on given inputs\<close>

text \<open>
  Values in a moderate range are stored unchanged; \<open>exp (-200)\<close> is below the smallest
  positive float32 and is stored as zero.
\<close>

lemma in_range32_zero [simp]: "in_range32 0"
  by (simp add: in_range32_def)

lemma in_range32_moderate:
  assumes "1 / 10 ^ 30 \<le> \<bar>r\<bar>" and "\<bar>r\<bar> \<le> 10 ^ 30"
  shows "in_range32 r"
proof -
  have "float32_underflow < 1 / 10 ^ 30" by (simp add: float32_underflow_def)
  with assms(1) have a: "float32_underflow < \<bar>r\<bar>" by linarith
  have "(10::real) ^ 30 < float32_overflow" by (simp add: float32_overflow_def)
  with assms(2) have b: "\<bar>r\<bar> < float32_overflow" by linarith
  from a b show ?thesis by (simp add: in_range32_def)
qed

lemma round32_moderate:
  "1 / 10 ^ 30 \<le> \<bar>r\<bar> \<Longrightarrow> \<bar>r\<bar> \<le> 10 ^ 30 \<Longrightarrow> round32 (Finite r) = Finite r"
  by (rule round32_in_range) (rule in_range32_moderate)








lemma F_normalize_Nil: "F_normalize [] = []"
  by (simp add: F_normalize_def)

lemma F_normalize_reals:
  assumes "squares_in_range (map Finite rs)"
  shows "F_normalize (map Finite rs # x)
       = map (\<lambda>r. round32 (Finite (r / max (norm2 rs) normalize_eps))) rs # F_normalize x"
  using normalize_row_reals[OF assms] by (simp add: F_normalize_def)













lemma round32_overflow:
  "float32_overflow \<le> r \<Longrightarrow> round32 (Finite r) = PosInf"
  using float32_thresholds by (simp add: round32.simps)

text \<open>
  A row whose sum of squares overflows has the norm \<open>inf\<close>, and \<open>F.normalize\<close> turns it
  into the zero row.
\<close>

lemma F_normalize_overflow:
  "F_normalize [[Finite (2 ^ 65), Finite 0]] = [[Finite 0, Finite 0]]"
proof -
  have "float32_overflow \<le> 2 ^ 65 * 2 ^ 65" by (simp add: float32_overflow_def)
  then have sq: "mul32 (Finite (2 ^ 65)) (Finite (2 ^ 65)) = PosInf"
    unfolding mul32_def fmul.simps by (rule round32_overflow)
  have z: "mul32 (Finite 0) (Finite 0) = Finite 0" by (simp add: mul32_def)
  have n: "l2_norm [Finite (2 ^ 65), Finite 0] = PosInf"
    unfolding l2_norm_def list.map sq z by (simp add: sum32_def add32_def sqrt32_def)
  show ?thesis unfolding F_normalize_def list.map n by (simp add: div32_def)
qed



section \<open>The claims\<close>

subsection \<open>C1\<close>




subsection \<open>C2\<close>

text \<open>
  C2, as amended. Over positionally aligned parameter sequences (as many parameters, of the
  same sizes) \<open>momentum_synchronize(m)\<close> sets every teacher parameter to
  \<open>m * teacher + (1 - m) * student\<close>, entry by entry, clears its \<open>requires_grad\<close> and
  leaves the student alone. With \<open>m = 0\<close> every teacher parameter becomes equal to the
  student's, provided the teacher's previous values are finite; with \<open>m = 1\<close> every teacher
  parameter is unchanged, provided the student's values are finite.
\<close>

theorem momentum_synchronize_blends:
  assumes "aligned (student self) (teacher self)"
  shows "map data (teacher (momentum_synchronize self m))
           = map2 (\<lambda>s t. map2 (blend m) (data s) (data t)) (student self) (teacher self)
     \<and> list_all (\<lambda>t. \<not> requires_grad t) (teacher (momentum_synchronize self m))
     \<and> student (momentum_synchronize self m) = student self
     \<and> (finite_params (teacher self)
          \<longrightarrow> map data (teacher (momentum_synchronize self (Finite 0))) = map data (student self))
     \<and> (finite_params (student self)
          \<longrightarrow> map data (teacher (momentum_synchronize self (Finite 1))) = map data (teacher self))"
proof -
  have len: "length (student self) = length (teacher self)"
    using assms by (simp add: aligned_def list_all2_lengthD)
  show ?thesis
    by (simp add: momentum_synchronize_def momentum_synchronize_loop_data[OF assms]
        momentum_synchronize_loop_requires_grad[OF len] sync_zero[OF assms] sync_one[OF assms])
qed

theorem momentum_synchronize_blends_witness:
  "aligned [\<lparr>data = [Finite 2, Finite 4], requires_grad = True\<rparr>]
           [\<lparr>data = [Finite 1, Finite 0], requires_grad = True\<rparr>]
   \<and> finite_params [\<lparr>data = [Finite 1, Finite 0], requires_grad = True\<rparr>]
   \<and> finite_params [\<lparr>data = [Finite 2, Finite 4], requires_grad = True\<rparr>]
   \<and> map data (teacher (momentum_synchronize
         \<lparr>num_classes = 0, student = [\<lparr>data = [Finite 2, Finite 4], requires_grad = True\<rparr>],
          teacher = [\<lparr>data = [Finite 1, Finite 0], requires_grad = True\<rparr>],
          queue = (Map.empty :: nat queue)\<rparr> (Finite (1/2))))
       = [[Finite (3/2), Finite 2]]
   \<and> map data (teacher (momentum_synchronize
         \<lparr>num_classes = 0, student = [\<lparr>data = [Finite 2, Finite 4], requires_grad = True\<rparr>],
          teacher = [\<lparr>data = [Finite 1, Finite 0], requires_grad = True\<rparr>],
          queue = (Map.empty :: nat queue)\<rparr> (Finite 0)))
       = [[Finite 2, Finite 4]]
   \<and> map data (teacher (momentum_synchronize
         \<lparr>num_classes = 0, student = [\<lparr>data = [Finite 2, Finite 4], requires_grad = True\<rparr>],
          teacher = [\<lparr>data = [Finite 1, Finite 0], requires_grad = True\<rparr>],
          queue = (Map.empty :: nat queue)\<rparr> (Finite 1)))
       = [[Finite 1, Finite 0]]"
proof -
  let ?s = "[\<lparr>data = [Finite 2, Finite 4], requires_grad = True\<rparr>]"
  let ?t = "[\<lparr>data = [Finite 1, Finite 0], requires_grad = True\<rparr>]"
  let ?self = "\<lparr>num_classes = 0, student = ?s, teacher = ?t, queue = (Map.empty :: nat queue)\<rparr>"
  have h: "aligned (student ?self) (teacher ?self)" by (simp add: aligned_def)
  have ft: "finite_params (teacher ?self)" and fs: "finite_params (student ?self)"
    by (simp_all add: finite_params_def)
  note T = momentum_synchronize_blends[OF h]
  have a: "map data (teacher (momentum_synchronize ?self (Finite (1/2)))) = [[Finite (3/2), Finite 2]]"
    using T[of "Finite (1/2)"] by (simp add: blend_def)
  have "map data (teacher (momentum_synchronize ?self (Finite 0))) = map data (student ?self)"
    using T ft by blast
  then have b: "map data (teacher (momentum_synchronize ?self (Finite 0))) = [[Finite 2, Finite 4]]"
    by simp
  have "map data (teacher (momentum_synchronize ?self (Finite 1))) = map data (teacher ?self)"
    using T fs by blast
  then have c: "map data (teacher (momentum_synchronize ?self (Finite 1))) = [[Finite 1, Finite 0]]"
    by simp
  from h ft fs a b c show ?thesis by simp
qed

text \<open>
  C2 as stated fails on non-finite values: with \<open>m = 1\<close> and a student entry \<open>inf\<close> the
  teacher entry 1 becomes \<open>1 * 1 + 0 * inf = nan\<close>, so it does depend on the student's
  values; with \<open>m = 0\<close> and a teacher entry \<open>nan\<close> the result is
  \<open>0 * nan + 1 * 1 = nan\<close>, not the student's 1.
\<close>

theorem momentum_synchronize_blends_counterexample:
  "map data (teacher (momentum_synchronize
         \<lparr>num_classes = 0, student = [\<lparr>data = [PosInf], requires_grad = True\<rparr>],
          teacher = [\<lparr>data = [Finite 1], requires_grad = True\<rparr>],
          queue = (Map.empty :: nat queue)\<rparr> (Finite 1)))
       = [[NaN]]
   \<and> [[NaN]] \<noteq> map data [\<lparr>data = [Finite 1], requires_grad = True\<rparr>]
   \<and> map data (teacher (momentum_synchronize
         \<lparr>num_classes = 0, student = [\<lparr>data = [Finite 1], requires_grad = True\<rparr>],
          teacher = [\<lparr>data = [NaN], requires_grad = True\<rparr>],
          queue = (Map.empty :: nat queue)\<rparr> (Finite 0)))
       = [[NaN]]
   \<and> [[NaN]] \<noteq> map data [\<lparr>data = [Finite 1], requires_grad = True\<rparr>]"
  by (simp add: momentum_synchronize_def tensor_add_def scalar_mul_def inf_signed_def)

subsection \<open>C3\<close>

text \<open>
  C3, as amended. When the batches read are well formed and the teacher returns one
  embedding row per sample, \<open>initialize_queue(queue_size)\<close> returns normally; the slot of
  each class \<open>c\<close> then holds one entry per batch read, \<open>min queue_size (number of
  batches)\<close> of them, and the number of embedding rows over the entries of the slot is the
  number of samples labelled \<open>c\<close> among the first \<open>queue_size\<close> batches.
\<close>

theorem initialize_queue_rows_per_class:
  assumes "batches_ok (take (nat qs) loader)"
    and "\<forall>xs. length (tf (teacher self) xs) = length xs"
  shows "\<exists>self'. initialize_queue tf loader self qs = Inr self'
     \<and> (\<forall>c<num_classes self. \<exists>slot. queue self' c = Some slot
           \<and> length slot = min (nat qs) (length loader)
           \<and> length (concat slot) = class_count (take (nat qs) loader) c)"
proof -
  let ?s0 = "self\<lparr>queue := empty_slots [0..<num_classes self] Map.empty\<rparr>"
  from initialize_queue_ok[OF assms(1)] obtain self' where
    i: "initialize_queue tf loader self qs = Inr self'" by blast
  then have e: "enqueue tf loader ?s0 qs = Inr self'" by (simp add: initialize_queue_def)
  have hs: "has_slots (num_classes ?s0) (queue ?s0)" by (simp add: has_slots_empty_slots)
  note q = enqueue_queue[OF e hs]
  have "\<forall>c<num_classes self. \<exists>slot. queue self' c = Some slot
           \<and> length slot = min (nat qs) (length loader)
           \<and> length (concat slot) = class_count (take (nat qs) loader) c"
  proof (intro allI impI)
    fix c assume c: "c < num_classes self"
    have "queue self' c = Some (entries (tf (teacher self)) (take (nat qs) loader) c)"
      using c by (simp add: q(1) empty_slots_apply)
    then show "\<exists>slot. queue self' c = Some slot
           \<and> length slot = min (nat qs) (length loader)
           \<and> length (concat slot) = class_count (take (nat qs) loader) c"
      using length_entries length_concat_entries[OF assms(2) assms(1)] by blast
  qed
  with i show ?thesis by blast
qed

theorem initialize_queue_rows_per_class_witness:
  "batches_ok (take (nat 5) [([10, 11, 12::nat], [1, 0, 1]), ([13, 14], [0, 0])])
   \<and> (\<exists>self'. initialize_queue (\<lambda>ps xs. xs) [([10, 11, 12::nat], [1, 0, 1]), ([13, 14], [0, 0])]
          \<lparr>num_classes = 2, student = [], teacher = [], queue = Map.empty\<rparr> 5 = Inr self'
        \<and> map_option length (queue self' 0) = Some 2
        \<and> map_option (length \<circ> concat) (queue self' 0) = Some 3
        \<and> map_option (length \<circ> concat) (queue self' 1) = Some 2)
   \<and> class_count (take (nat 5) [([10, 11, 12::nat], [1, 0, 1]), ([13, 14], [0, 0])]) 0 = 3"
proof -
  let ?tf = "\<lambda>(ps::param list) (xs::nat list). xs"
  let ?loader = "[([10, 11, 12::nat], [1, 0, 1::int]), ([13, 14], [0, 0])]"
  let ?self = "\<lparr>num_classes = 2, student = [], teacher = [], queue = Map.empty\<rparr>
                 :: nat SupervisedContrast"
  have h1: "batches_ok (take (nat 5) ?loader)" by (simp add: batches_ok_def)
  have h2: "\<forall>xs. length (?tf (teacher ?self) xs) = length xs" by simp
  from initialize_queue_rows_per_class[OF h1 h2]
  obtain self' where r: "initialize_queue ?tf ?loader ?self 5 = Inr self'"
    and q: "\<forall>c<num_classes ?self. \<exists>slot. queue self' c = Some slot
           \<and> length slot = min (nat 5) (length ?loader)
           \<and> length (concat slot) = class_count (take (nat 5) ?loader) c"
    by blast
  have c0: "class_count (take (nat 5) ?loader) 0 = 3" by (simp add: class_count_def)
  have c1: "class_count (take (nat 5) ?loader) 1 = 2" by (simp add: class_count_def)
  from q[rule_format, of 0] c0 have q0: "map_option length (queue self' 0) = Some 2"
    "map_option (length \<circ> concat) (queue self' 0) = Some 3" by auto
  from q[rule_format, of 1] c1 have q1: "map_option (length \<circ> concat) (queue self' 1) = Some 2"
    by auto
  from r q0 q1 h1 c0 show ?thesis by blast
qed

text \<open>
  C3 as stated fails: after \<open>initialize_queue(1)\<close> on one batch of two samples of class 0,
  \<open>len(queue[0])\<close> is 1 (one entry, of two rows) while class 0 has 2 samples, and
  \<open>len(queue[1])\<close> is 1 (one entry, of no rows) while class 1 has none.
\<close>

theorem initialize_queue_rows_per_class_counterexample:
  "map_sum id (\<lambda>s. (map_option length (queue s 0), map_option length (queue s 1)))
     (initialize_queue (\<lambda>ps xs. xs) [([10, 11::nat], [0, 0])]
        \<lparr>num_classes = 2, student = [], teacher = [], queue = Map.empty\<rparr> 1)
     = Inr (Some 1, Some 1)
   \<and> class_count (take (nat 1) [([10, 11::nat], [0, 0])]) 0 = 2
   \<and> class_count (take (nat 1) [([10, 11::nat], [0, 0])]) 1 = 0"
  by (simp add: initialize_queue_def enqueue_def index_mask_def label_eq_def class_count_def
      numeral_2_eq_2)

subsection \<open>C4\<close>

text \<open>
  C4, as amended. When every class slot holds at least one entry and the data source yields
  at least one batch \<open>(x, y)\<close>, well formed, \<open>enqueue(1)\<close> followed by \<open>dequeue(1)\<close>
  returns normally, and every class slot is then its previous tail followed by the entry
  computed from \<open>(x, y)\<close>: its length is unchanged, and when it held at least two entries
  its oldest remaining entry is the one that was second-oldest before. (A slot that held a
  single entry holds the new entry only.)
\<close>

theorem enqueue_dequeue_fifo:
  assumes "nonempty_slots (num_classes self) (queue self)" and "length x = length y"
  shows "\<exists>self'. and_then (enqueue tf ((x, y) # loader) self 1) (\<lambda>s. dequeue s 1) = Inr self'
     \<and> self' = self\<lparr>queue := queue self'\<rparr>
     \<and> (\<forall>i<num_classes self. \<exists>old new. queue self i = Some old \<and> queue self' i = Some new
           \<and> new = tl old @ [tf (teacher self) (class_rows x y i)]
           \<and> length new = length old
           \<and> (2 \<le> length old \<longrightarrow> oldest new = second_oldest old))"
proof -
  let ?e = "\<lambda>i. tf (teacher self) (class_rows x y i)"
  note hs = nonempty_slots_has_slots[OF assms(1)]
  have ok: "batches_ok (take (nat 1) ((x, y) # loader))" using assms(2) by (simp add: batches_ok_def)
  from enqueue_ok[OF hs ok] obtain s1 where s1: "enqueue tf ((x, y) # loader) self 1 = Inr s1" by blast
  note q1 = enqueue_queue[OF s1 hs]
  have slot1: "\<And>i. i < num_classes self \<Longrightarrow> queue s1 i = Some (the (queue self i) @ [?e i])"
    by (simp add: q1(1) entries_def)
  have hs1: "has_slots (num_classes s1) (queue s1)"
    by (simp add: has_slots_def q1(2) slot1)
  have no: "\<not> (\<exists>i<num_classes s1. int (length (the (queue s1 i))) < 1)"
    by (auto simp: q1(2) slot1)
  let ?s2 = "s1\<lparr>queue := (\<lambda>i. if i < num_classes s1
                  then Some (drop (nat 1) (the (queue s1 i))) else queue s1 i)\<rparr>"
  have d: "dequeue s1 1 = Inr ?s2" unfolding dequeue_eq[OF hs1] using no by simp
  note q2 = dequeue_Inr[OF hs1 d]
  have run: "and_then (enqueue tf ((x, y) # loader) self 1) (\<lambda>s. dequeue s 1) = Inr ?s2"
    by (simp add: and_then_def s1 d)
  have rec: "?s2 = self\<lparr>queue := queue ?s2\<rparr>"
    by (subst (1) q1(4)) simp
  have slots: "\<forall>i<num_classes self. \<exists>old new. queue self i = Some old \<and> queue ?s2 i = Some new
           \<and> new = tl old @ [?e i] \<and> length new = length old
           \<and> (2 \<le> length old \<longrightarrow> oldest new = second_oldest old)"
  proof (intro allI impI)
    fix i assume i: "i < num_classes self"
    with assms(1) obtain old where old: "queue self i = Some old" "old \<noteq> []"
      by (auto simp: nonempty_slots_def)
    have "queue ?s2 i = Some (drop (nat 1) (old @ [?e i]))"
      using i old by (simp add: q1(2) slot1)
    also have "drop (nat 1) (old @ [?e i]) = tl old @ [?e i]"
      using old(2) by (cases old) simp_all
    finally have new: "queue ?s2 i = Some (tl old @ [?e i])" .
    have len: "length (tl old @ [?e i]) = length old" using old(2) by (cases old) simp_all
    show "\<exists>old new. queue self i = Some old \<and> queue ?s2 i = Some new
           \<and> new = tl old @ [?e i] \<and> length new = length old
           \<and> (2 \<le> length old \<longrightarrow> oldest new = second_oldest old)"
    proof (intro exI conjI impI)
      show "queue self i = Some old" by (rule old(1))
      show "queue ?s2 i = Some (tl old @ [?e i])" by (rule new)
      show "tl old @ [?e i] = tl old @ [?e i]" by (rule refl)
      show "length (tl old @ [?e i]) = length old" by (rule len)
      show "oldest (tl old @ [?e i]) = second_oldest old" if "2 \<le> length old"
        using that by (rule oldest_second_oldest)
    qed
  qed
  show ?thesis
  proof (intro exI conjI)
    show "and_then (enqueue tf ((x, y) # loader) self 1) (\<lambda>s. dequeue s 1) = Inr ?s2" by (rule run)
    show "?s2 = self\<lparr>queue := queue ?s2\<rparr>" by (rule rec)
    show "\<forall>i<num_classes self. \<exists>old new. queue self i = Some old \<and> queue ?s2 i = Some new
           \<and> new = tl old @ [?e i] \<and> length new = length old
           \<and> (2 \<le> length old \<longrightarrow> oldest new = second_oldest old)" by (rule slots)
  qed
qed

theorem enqueue_dequeue_fifo_witness:
  "nonempty_slots 2 [0 \<mapsto> [[7::nat], [6]], 1 \<mapsto> [[8, 9]]]
   \<and> length [10, 11, 12::nat] = length [1, 0, 1::int]
   \<and> (\<exists>self'. and_then (enqueue (\<lambda>ps xs. xs) [([10, 11, 12::nat], [1, 0, 1])]
                 \<lparr>num_classes = 2, student = [], teacher = [],
                  queue = [0 \<mapsto> [[7::nat], [6]], 1 \<mapsto> [[8, 9]]]\<rparr> 1) (\<lambda>s. dequeue s 1) = Inr self'
          \<and> queue self' 0 = Some [[6], [11]] \<and> queue self' 1 = Some [[10, 12]])
   \<and> oldest [[6], [11::nat]] = second_oldest [[7], [6]]"
proof -
  let ?self = "\<lparr>num_classes = 2, student = [], teacher = [],
                  queue = [0 \<mapsto> [[7::nat], [6]], 1 \<mapsto> [[8, 9]]]\<rparr>"
  let ?tf = "\<lambda>(ps::param list) (xs::nat list). xs"
  have h1: "nonempty_slots (num_classes ?self) (queue ?self)"
    by (simp add: nonempty_slots_def less_Suc_eq numeral_2_eq_2)
  have h2: "length [10, 11, 12::nat] = length [1, 0, 1::int]" by simp
  from enqueue_dequeue_fifo[OF h1 h2, of ?tf "[]"]
  obtain self' where r: "and_then (enqueue ?tf [([10, 11, 12], [1, 0, 1])] ?self 1) (\<lambda>s. dequeue s 1) = Inr self'"
    and q: "\<forall>i<num_classes ?self. \<exists>old new. queue ?self i = Some old \<and> queue self' i = Some new
           \<and> new = tl old @ [?tf (teacher ?self) (class_rows [10, 11, 12] [1, 0, 1] i)]
           \<and> length new = length old
           \<and> (2 \<le> length old \<longrightarrow> oldest new = second_oldest old)"
    by blast
  from q[rule_format, of 0] have q0: "queue self' 0 = Some [[6], [11]]"
    by (auto simp: class_rows_def)
  from q[rule_format, of 1] have q1: "queue self' 1 = Some [[10, 12]]"
    by (auto simp: class_rows_def)
  have o: "oldest [[6], [11::nat]] = second_oldest [[7], [6]]"
    by (simp add: oldest_def second_oldest_def)
  from r q0 q1 h1 h2 o show ?thesis by auto
qed

text \<open>
  C4 as stated fails on two inputs. On a slot that holds a single entry the oldest entry
  after \<open>enqueue(1); dequeue(1)\<close> is the entry just appended, and there was no
  second-oldest entry before. When the data source yields no batch, \<open>enqueue(1)\<close> appends
  nothing and \<open>dequeue(1)\<close> still removes one entry, so the length drops from 1 to 0.
\<close>

theorem enqueue_dequeue_fifo_counterexample:
  "map_sum id (\<lambda>s. queue s 0)
     (and_then (enqueue (\<lambda>ps xs. xs) [([10::nat], [0])]
                 \<lparr>num_classes = 1, student = [], teacher = [], queue = [0 \<mapsto> [[7::nat]]]\<rparr> 1)
        (\<lambda>s. dequeue s 1)) = Inr (Some [[10]])
   \<and> oldest [[10::nat]] \<noteq> second_oldest [[7]]
   \<and> map_sum id (\<lambda>s. queue s 0)
     (and_then (enqueue (\<lambda>ps xs. xs) ([] :: (nat list \<times> int list) list)
                 \<lparr>num_classes = 1, student = [], teacher = [], queue = [0 \<mapsto> [[7::nat]]]\<rparr> 1)
        (\<lambda>s. dequeue s 1)) = Inr (Some [])
   \<and> length ([] :: nat list list) \<noteq> length [[7::nat]]"
  by (simp add: and_then_def enqueue_def dequeue_def index_mask_def label_eq_def
      oldest_def second_oldest_def)

subsection \<open>C5\<close>

text \<open>
  C5, as amended. When there is at least one class and every class slot holds at least one
  entry (possibly a tensor of no rows), \<open>get_queue\<close> returns the embedding rows of class 0,
  then those of class 1, and so on, and the parallel labels: \<open>c\<close> repeated once per queued
  row of class \<open>c\<close>, in ascending class order. The number of rows is the sum over the
  classes of their queued rows, there are as many labels, and a class without queued rows
  does not occur among the labels.
\<close>

theorem get_queue_flattens:
  assumes "nonempty_slots (num_classes self) (queue self)" and "0 < num_classes self"
  shows "\<exists>x y. get_queue self = Inr (x, y)
     \<and> x = concat (map (class_embeddings (queue self)) [0..<num_classes self])
     \<and> y = concat (map (\<lambda>c. replicate (length (class_embeddings (queue self) c)) c)
                     [0..<num_classes self])
     \<and> length x = (\<Sum>c<num_classes self. length (class_embeddings (queue self) c))
     \<and> length y = length x
     \<and> sorted y
     \<and> (\<forall>c. count_list y c
               = (if c < num_classes self then length (class_embeddings (queue self) c) else 0))"
proof (intro exI conjI)
  show "get_queue self =
     Inr (concat (map (class_embeddings (queue self)) [0..<num_classes self]),
          concat (map (\<lambda>c. replicate (length (class_embeddings (queue self) c)) c)
                    [0..<num_classes self]))"
    by (rule get_queue_ok[OF assms])
qed (simp_all add: length_class_labels length_concat_classes sorted_class_labels
      count_class_labels)

theorem get_queue_flattens_witness:
  "nonempty_slots 3 [0 \<mapsto> [[7::nat], [6, 5]], 1 \<mapsto> [[]], 2 \<mapsto> [[8, 9]]]
   \<and> (0::nat) < 3
   \<and> get_queue \<lparr>num_classes = 3, student = [], teacher = [],
                  queue = [0 \<mapsto> [[7::nat], [6, 5]], 1 \<mapsto> [[]], 2 \<mapsto> [[8, 9]]]\<rparr>
       = Inr ([7, 6, 5, 8, 9], [0, 0, 0, 2, 2])"
proof -
  let ?self = "\<lparr>num_classes = 3, student = [], teacher = [],
                  queue = [0 \<mapsto> [[7::nat], [6, 5]], 1 \<mapsto> [[]], 2 \<mapsto> [[8, 9]]]\<rparr>"
  have h1: "nonempty_slots (num_classes ?self) (queue ?self)"
    by (simp add: nonempty_slots_def less_Suc_eq numeral_3_eq_3)
  have h2: "0 < num_classes ?self" by simp
  from get_queue_flattens[OF h1 h2]
  obtain x y where r: "get_queue ?self = Inr (x, y)"
    and x: "x = concat (map (class_embeddings (queue ?self)) [0..<num_classes ?self])"
    and y: "y = concat (map (\<lambda>c. replicate (length (class_embeddings (queue ?self) c)) c)
                     [0..<num_classes ?self])"
    by blast
  have u: "[0..<3] = [0, 1, 2]" by (simp add: upt_rec)
  have "x = [7, 6, 5, 8, 9]" unfolding x by (simp add: class_embeddings_def u)
  moreover have "y = [0, 0, 0, 2, 2]" unfolding y
    by (simp add: class_embeddings_def u numeral_3_eq_3 numeral_2_eq_2)
  ultimately show ?thesis using r h1 by simp
qed

text \<open>
  C5 as stated fails on a queue whose slots hold no entry, as after
  \<open>initialize_queue(0)\<close>: \<open>torch.cat\<close> of the empty list raises.
\<close>

theorem get_queue_flattens_counterexample:
  "and_then (initialize_queue (\<lambda>ps xs. xs) [([10::nat], [0])]
        \<lparr>num_classes = 1, student = [], teacher = [], queue = Map.empty\<rparr> 0) get_queue
     = Inl RuntimeError"
  by (simp add: and_then_def initialize_queue_def enqueue_def get_queue_def torch_cat_def)

subsection \<open>C6\<close>

text \<open>
  C6. With every class key present, \<open>dequeue(size)\<close> raises (\<open>IndexError\<close>, from
  \<open>pop(0)\<close> on an empty list) exactly when some class slot holds fewer than \<open>size\<close>
  entries; otherwise it returns normally, every class slot has lost its \<open>size\<close> oldest
  entries (the first ones of the list) and nothing else of the object has changed.
\<close>

theorem dequeue_underflow_or_drop:
  assumes "has_slots (num_classes self) (queue self)"
  shows "dequeue self sz =
     (if \<exists>i<num_classes self. int (length (the (queue self i))) < sz then Inl IndexError
      else Inr (self\<lparr>queue := (\<lambda>i. if i < num_classes self
                  then Some (drop (nat sz) (the (queue self i))) else queue self i)\<rparr>))"
  using assms by (rule dequeue_eq)

theorem dequeue_underflow_or_drop_witness:
  "has_slots 2 [0 \<mapsto> [[7::nat], [6]], 1 \<mapsto> [[8, 9]]]
   \<and> dequeue \<lparr>num_classes = 2, student = [], teacher = [],
               queue = [0 \<mapsto> [[7::nat], [6]], 1 \<mapsto> [[8, 9]]]\<rparr> 2 = Inl IndexError
   \<and> map_sum id (\<lambda>s. (queue s 0, queue s 1))
        (dequeue \<lparr>num_classes = 2, student = [], teacher = [],
               queue = [0 \<mapsto> [[7::nat], [6]], 1 \<mapsto> [[8, 9]]]\<rparr> 1)
       = Inr (Some [[6]], Some [])"
proof -
  let ?self = "\<lparr>num_classes = 2, student = [], teacher = [],
               queue = [0 \<mapsto> [[7::nat], [6]], 1 \<mapsto> [[8, 9]]]\<rparr>"
  have h: "has_slots (num_classes ?self) (queue ?self)" by (simp add: has_slots_def)
  have a: "\<exists>i<num_classes ?self. int (length (the (queue ?self i))) < 2"
    by (rule exI[of _ 1]) simp
  have b: "\<not> (\<exists>i<num_classes ?self. int (length (the (queue ?self i))) < 1)"
    by (auto simp: less_Suc_eq numeral_2_eq_2)
  have "dequeue ?self 2 = Inl IndexError"
    using dequeue_underflow_or_drop[OF h, of 2] a by simp
  moreover have "map_sum id (\<lambda>s. (queue s 0, queue s 1)) (dequeue ?self 1) = Inr (Some [[6]], Some [])"
    unfolding dequeue_underflow_or_drop[OF h, of 1] using b by simp
  ultimately show ?thesis using h by simp
qed

subsection \<open>C7\<close>




subsection \<open>C8\<close>

text \<open>
  C8. For inputs of the documented shapes, when the sum of the label mask is zero the loss
  that \<open>chr_loss\<close> returns is not finite (the division is not guarded and raises nothing);
  this is the case when every batch label or every queue label is 0.
\<close>

theorem chr_loss_zero_mask_sum:
  assumes "chr_shapes x y queue_x queue_y d"
  shows "(torch_sum (label_mask y queue_y) = Finite 0
           \<longrightarrow> \<not> is_finite (chr_loss x y queue_x queue_y t))
     \<and> (list_all (\<lambda>l. l = 0) y \<or> list_all (\<lambda>l. l = 0) queue_y
           \<longrightarrow> torch_sum (label_mask y queue_y) = Finite 0
               \<and> \<not> is_finite (chr_loss x y queue_x queue_y t))"
  using torch_sum_label_mask_zero[of y queue_y]
  by (auto simp: chr_loss_def div32_by_zero)

theorem chr_loss_zero_mask_sum_witness:
  "chr_shapes [[Finite 1]] [0] [[Finite 1]] [3] 1
   \<and> list_all (\<lambda>l. l = 0) [0::int]
   \<and> torch_sum (label_mask [0] [3]) = Finite 0
   \<and> \<not> is_finite (chr_loss [[Finite 1]] [0] [[Finite 1]] [3] (Finite 1))
   \<and> chr_loss [[Finite 1]] [0] [[Finite 1]] [3] (Finite 1) = NaN"
proof -
  have h: "chr_shapes [[Finite 1]] [0] [[Finite 1]] [3] 1" by (simp add: chr_shapes_def)
  have z: "list_all (\<lambda>l. l = 0) [0::int]" by simp
  from chr_loss_zero_mask_sum[OF h, of "Finite 1"] z
  have a: "torch_sum (label_mask [0] [3]) = Finite 0"
    and b: "\<not> is_finite (chr_loss [[Finite 1]] [0] [[Finite 1]] [3] (Finite 1))" by blast+
  have sq: "squares_in_range (map Finite [1])"
    by (simp add: squares_in_range_def in_range32_moderate float32_overflow_def)
  have n: "F_normalize [[Finite 1]] = [[Finite 1]]"
    using F_normalize_reals[OF sq, of "[]"]
    by (simp add: F_normalize_Nil norm2_def round32_moderate normalize_eps_def)
  have g: "gram_matrix [[Finite 1]] [[Finite 1]] (Finite 1) = [[Finite 1]]"
    by (simp add: gram_matrix_def matmul_def dot_def sum32_def n mul32_def add32_def div32_def
        round32_moderate)
  have lp: "log_probs [[Finite 1]] [[Finite 1]] (Finite 1) = [[Finite 0]]"
    by (simp add: log_probs_def F_softmax_def softmax_row_def row_max_def g sub32_def exp32_def
        sum32_def add32_def div32_def log32_def round32_moderate)
  have m: "label_mask [0] [3] = [[Finite 0]]"
    by (simp add: label_mask_def matmul_def dot_def sum32_def unsqueeze0_def unsqueeze1_def
        to_float_def mul32_def add32_def)
  have c: "chr_loss [[Finite 1]] [0] [[Finite 1]] [3] (Finite 1) = NaN"
    unfolding chr_loss_def lp m
    by (simp add: torch_sum_def sum32_def add32_def mul32_def div32_def)
  from h z a b c show ?thesis by blast
qed

subsection \<open>C9\<close>

text \<open>
  C9. The class slots always have one common length. \<open>initialize_queue\<close> creates every
  slot empty; whenever \<open>initialize_queue\<close>, \<open>enqueue\<close> or \<open>dequeue\<close> returns normally
  from a queue whose slots have a common length, the slots of the resulting queue have a
  common length again: one more entry per batch read for \<open>enqueue\<close> (so
  \<open>min size (number of batches)\<close> more), \<open>size\<close> fewer for \<open>dequeue\<close>.
\<close>

theorem queue_slots_stay_equal:
  "equal_slots n (empty_slots [0..<n] Map.empty) 0
   \<and> (initialize_queue tf loader self qs = Inr sa
        \<longrightarrow> equal_slots (num_classes sa) (queue sa) (min (nat qs) (length loader)))
   \<and> (equal_slots (num_classes self) (queue self) len \<and> enqueue tf loader self sz = Inr sb
        \<longrightarrow> equal_slots (num_classes sb) (queue sb) (len + min (nat sz) (length loader)))
   \<and> (equal_slots (num_classes self) (queue self) len \<and> dequeue self sz = Inr sc
        \<longrightarrow> equal_slots (num_classes sc) (queue sc) (len - nat sz))"
  using equal_slots_empty_slots initialize_queue_equal_slots enqueue_equal_slots
    dequeue_equal_slots by blast

theorem queue_slots_stay_equal_witness:
  "\<exists>s1 s2 s3.
     initialize_queue (\<lambda>ps xs. xs) [([10, 11, 12::nat], [1, 0, 1]), ([13, 14], [0, 0])]
       \<lparr>num_classes = 2, student = [], teacher = [], queue = Map.empty\<rparr> 5 = Inr s1
     \<and> equal_slots (num_classes s1) (queue s1) 2
     \<and> enqueue (\<lambda>ps xs. xs) [([10, 11, 12::nat], [1, 0, 1]), ([13, 14], [0, 0])] s1 1 = Inr s2
     \<and> equal_slots (num_classes s2) (queue s2) 3
     \<and> dequeue s2 2 = Inr s3
     \<and> equal_slots (num_classes s3) (queue s3) 1"
proof -
  let ?tf = "\<lambda>(ps::param list) (xs::nat list). xs"
  let ?loader = "[([10, 11, 12::nat], [1, 0, 1::int]), ([13, 14], [0, 0])]"
  let ?self = "\<lparr>num_classes = 2, student = [], teacher = [], queue = Map.empty\<rparr>
                 :: nat SupervisedContrast"
  have ok: "\<And>n. batches_ok (take n ?loader)"
    by (simp add: batches_ok_def list_all_iff) (auto dest!: in_set_takeD)
  obtain s1 where s1: "initialize_queue ?tf ?loader ?self 5 = Inr s1"
    using initialize_queue_ok[OF ok] by blast
  have n1: "min (nat 5) (length ?loader) = 2" by simp
  have "equal_slots (num_classes s1) (queue s1) (min (nat 5) (length ?loader))"
    using queue_slots_stay_equal[where tf="?tf" and loader="?loader" and self="?self"
        and qs=5 and sa=s1] s1 by blast
  then have e1: "equal_slots (num_classes s1) (queue s1) 2" by (simp only: n1)
  obtain s2 where s2: "enqueue ?tf ?loader s1 1 = Inr s2"
    using enqueue_ok[OF equal_slots_has_slots[OF e1] ok] by blast
  have n2: "2 + min (nat 1) (length ?loader) = 3" by simp
  have "equal_slots (num_classes s2) (queue s2) (2 + min (nat 1) (length ?loader))"
    using queue_slots_stay_equal[where tf="?tf" and loader="?loader" and self=s1
        and len=2 and sz=1 and sb=s2] e1 s2 by blast
  then have e2: "equal_slots (num_classes s2) (queue s2) 3" by (simp only: n2)
  obtain s3 where s3: "dequeue s2 2 = Inr s3"
    using dequeue_ok[OF e2, of 2] by auto
  have n3: "3 - nat 2 = (1::nat)" by simp
  have "equal_slots (num_classes s3) (queue s3) (3 - nat 2)"
    using queue_slots_stay_equal[where self=s2 and len=3 and sz=2 and sc=s3] e2 s3 by blast
  then have e3: "equal_slots (num_classes s3) (queue s3) 1" by (simp only: n3)
  from s1 e1 s2 e2 s3 e3 show ?thesis by blast
qed

subsection \<open>C10\<close>

text \<open>
  C10. \<open>enqueue(size)\<close> walks the batches the data source yields from the first one, in
  order, and stops after \<open>size\<close> of them: when every class key is present and the
  batches it reads are well formed (as many labels as samples), it returns normally, every
  class slot is extended by one entry per batch read, these are the first \<open>size\<close> batches
  or all of them when the source yields fewer, so the number of entries appended per class is
  \<open>min size (number of batches)\<close>; nothing else of the object changes.
\<close>

theorem enqueue_appends_at_most_size:
  assumes "has_slots (num_classes self) (queue self)"
    and "batches_ok (take (nat sz) loader)"
  shows "\<exists>self'. enqueue tf loader self sz = Inr self'
           \<and> self' = self\<lparr>queue := queue self'\<rparr>
           \<and> (\<forall>i<num_classes self. \<exists>slot.
                 queue self i = Some slot
                 \<and> queue self' i = Some (slot @ entries (tf (teacher self)) (take (nat sz) loader) i)
                 \<and> length (entries (tf (teacher self)) (take (nat sz) loader) i)
                     = min (nat sz) (length loader))
           \<and> (\<forall>i. \<not> i < num_classes self \<longrightarrow> queue self' i = queue self i)"
proof -
  from enqueue_ok[OF assms] obtain self' where ok: "enqueue tf loader self sz = Inr self'" by blast
  note eq = enqueue_Inr[OF ok assms(1)]
  let ?F = "\<lambda>i. if i < num_classes self
            then Some (the (queue self i) @ entries (tf (teacher self)) (take (nat sz) loader) i)
            else queue self i"
  have qF: "queue self' = ?F" using arg_cong[OF eq, of queue] by simp
  have a: "self' = self\<lparr>queue := queue self'\<rparr>" using eq qF by simp
  have b: "\<forall>i<num_classes self. \<exists>slot.
                 queue self i = Some slot
                 \<and> queue self' i = Some (slot @ entries (tf (teacher self)) (take (nat sz) loader) i)
                 \<and> length (entries (tf (teacher self)) (take (nat sz) loader) i)
                     = min (nat sz) (length loader)"
  proof (intro allI impI)
    fix i assume i: "i < num_classes self"
    with assms(1) obtain slot where sl: "queue self i = Some slot" by (auto simp: has_slots_def)
    have "queue self' i = Some (slot @ entries (tf (teacher self)) (take (nat sz) loader) i)"
      by (simp add: qF i sl)
    moreover have "length (entries (tf (teacher self)) (take (nat sz) loader) i) = min (nat sz) (length loader)"
      by (simp add: entries_def min.commute)
    ultimately show "\<exists>slot. queue self i = Some slot
                 \<and> queue self' i = Some (slot @ entries (tf (teacher self)) (take (nat sz) loader) i)
                 \<and> length (entries (tf (teacher self)) (take (nat sz) loader) i)
                     = min (nat sz) (length loader)" using sl by blast
  qed
  have c: "\<forall>i. \<not> i < num_classes self \<longrightarrow> queue self' i = queue self i"
    by (simp add: qF)
  from ok a b c show ?thesis by blast
qed

theorem enqueue_appends_at_most_size_witness:
  "has_slots 2 [0 \<mapsto> [[7::nat]], 1 \<mapsto> [[8, 9]]]
   \<and> batches_ok (take (nat 3) [([10, 11, 12::nat], [1, 0, 1::int])])
   \<and> (\<exists>self'. enqueue (\<lambda>ps xs. xs) [([10, 11, 12::nat], [1, 0, 1])]
                 \<lparr>num_classes = 2, student = [], teacher = [],
                  queue = [0 \<mapsto> [[7::nat]], 1 \<mapsto> [[8, 9]]]\<rparr> 3 = Inr self'
          \<and> queue self' 0 = Some [[7], [11]] \<and> queue self' 1 = Some [[8, 9], [10, 12]])"
proof -
  let ?self = "\<lparr>num_classes = 2, student = [], teacher = [],
                  queue = [0 \<mapsto> [[7::nat]], 1 \<mapsto> [[8, 9]]]\<rparr>"
  let ?loader = "[([10, 11, 12::nat], [1, 0, 1::int])]"
  have h1: "has_slots (num_classes ?self) (queue ?self)" by (simp add: has_slots_def)
  have h2: "batches_ok (take (nat 3) ?loader)" by (simp add: batches_ok_def)
  from enqueue_appends_at_most_size[OF h1 h2, of "\<lambda>ps xs. xs"]
  obtain self' where e: "enqueue (\<lambda>ps xs. xs) ?loader ?self 3 = Inr self'"
    and q: "\<forall>i<num_classes ?self. \<exists>slot. queue ?self i = Some slot
              \<and> queue self' i = Some (slot @ entries ((\<lambda>ps xs. xs) (teacher ?self)) (take (nat 3) ?loader) i)
              \<and> length (entries ((\<lambda>ps xs. xs) (teacher ?self)) (take (nat 3) ?loader) i)
                     = min (nat 3) (length ?loader)"
    by blast
  from q[rule_format, of 0] have q0: "queue self' 0 = Some [[7], [11]]"
    by (simp add: entries_def class_rows_def)
  from q[rule_format, of 1] have q1: "queue self' 1 = Some [[8, 9], [10, 12]]"
    by (simp add: entries_def class_rows_def)
  from e q0 q1 h1 h2 show ?thesis by auto
qed

end
